theory Spec2Isabelle
  imports Complex_Main "HOL-Library.Word" "HOL-Library.Code_Target_Nat" "HOL-Library.Char_ord"
    "HOL-Library.List_Lexorder" "HOL-Library.Multiset"
begin

text \<open>
  A shallow embedding of the MergeTree storage engine: rows, granules, the sparse index,
  parts and their files, the k-way merge and its candidate selection, the memtable and
  the engine's range query and recovery. Exceptions are values of \<open>error + 'a\<close>, mutated
  objects are passed and returned, loops are recursive functions, and \<^verbatim>\<open>size_t\<close> and
  \<^verbatim>\<open>uint64_t\<close> are 64-bit words.
\<close>

section \<open>Rows (row.h)\<close>

text \<open>
  \<^verbatim>\<open>uint64_t\<close> and \<^verbatim>\<open>size_t\<close> are 64-bit words. A \<^verbatim>\<open>std::string\<close> is a
  \<open>string\<close> (a list of 8-bit characters); \<^verbatim>\<open>operator<\<close> on \<^verbatim>\<open>std::string\<close> is the
  lexicographic order on unsigned bytes, which is the order of \<open>List_Lexorder\<close> over
  \<open>Char_ord\<close>.
\<close>

type_synonym u64 = "64 word"

record Row =
  key :: string
  val :: string
  timestamp :: u64

text \<open>\<^verbatim>\<open>Row::operator<\<close>: by key, ties broken by timestamp ascending.\<close>

definition Row_less :: "Row \<Rightarrow> Row \<Rightarrow> bool" where
  "Row_less a b = (if key a \<noteq> key b then key a < key b else timestamp a < timestamp b)"

text \<open>
  \<^verbatim>\<open>std::sort(first, last, lt)\<close>. The standard leaves the relative order of equivalent
  elements open; the model is an insertion sort that keeps it. The theorems below use
  only that the result is a permutation in which no element is \<open>lt\<close>-less than an
  earlier one.
\<close>

fun insert_by :: "('a \<Rightarrow> 'a \<Rightarrow> bool) \<Rightarrow> 'a \<Rightarrow> 'a list \<Rightarrow> 'a list" where
  "insert_by lt x [] = [x]"
| "insert_by lt x (y # ys) = (if lt y x then y # insert_by lt x ys else x # y # ys)"

definition std_sort :: "('a \<Rightarrow> 'a \<Rightarrow> bool) \<Rightarrow> 'a list \<Rightarrow> 'a list" where
  "std_sort lt xs = foldr (insert_by lt) xs []"

text \<open>
  \<^verbatim>\<open>std::unique(first, last, pred)\<close>: of every run of consecutive elements that \<open>pred\<close>
  relates to the run's first element, the first is kept.
\<close>

fun std_unique :: "('a \<Rightarrow> 'a \<Rightarrow> bool) \<Rightarrow> 'a list \<Rightarrow> 'a list" where
  "std_unique pred [] = []"
| "std_unique pred [x] = [x]"
| "std_unique pred (x # y # ys) =
     (if pred x y then std_unique pred (x # ys) else x # std_unique pred (y # ys))"

text \<open>The lambda of \<^verbatim>\<open>MergeTree::query\<close>: equal key and equal timestamp.\<close>

definition same_key_ts :: "Row \<Rightarrow> Row \<Rightarrow> bool" where
  "same_key_ts a b = (key a = key b \<and> timestamp a = timestamp b)"

section \<open>Errors\<close>

text \<open>
  Every \<^verbatim>\<open>throw std::runtime_error\<close> of the sources is a constructor, named after the
  error kinds of the specification: \<open>GranuleFull\<close> ("Granule is full, cannot add more
  rows"), \<open>NotSorted\<close> ("Granule must be sorted before querying"), \<open>EmptyInput\<close> ("Cannot
  write empty granules", "Cannot write empty rows", "Cannot merge empty parts"),
  \<open>EmptyMergeResult\<close> ("Merge resulted in empty rows"), \<open>IoError\<close> (a missing part
  directory or file), \<open>DecodeError\<close> ("Inconsistent granule data sizes"). \<open>OutOfRange\<close>
  stands for an access \<^verbatim>\<open>v[i]\<close> with \<open>i \<ge> v.size()\<close>, which is undefined behaviour in
  C++.
\<close>

datatype error =
  GranuleFull | NotSorted | EmptyInput | EmptyMergeResult | NoMoreRows | IoError | DecodeError
  | OutOfRange

section \<open>Granules (granule.h, granule.cpp)\<close>

definition GRANULE_SIZE :: nat where
  "GRANULE_SIZE = 8192"

record Granule =
  rows :: "Row list"
  g_min_key :: string
  g_max_key :: string
  sorted_flag :: bool

definition Granule_new :: Granule where
  "Granule_new = \<lparr>rows = [], g_min_key = [], g_max_key = [], sorted_flag = False\<rparr>"

definition is_full :: "Granule \<Rightarrow> bool" where
  "is_full g = (length (rows g) \<ge> GRANULE_SIZE)"

definition is_empty :: "Granule \<Rightarrow> bool" where
  "is_empty g = (rows g = [])"

text \<open>
  \<^verbatim>\<open>Granule::update_key_range\<close>: the first and last key of a sorted granule, the least
  and greatest key otherwise, and two empty strings for an empty granule.
\<close>

definition update_key_range :: "Granule \<Rightarrow> Granule" where
  "update_key_range g =
     (case rows g of
        [] \<Rightarrow> g\<lparr>g_min_key := [], g_max_key := []\<rparr>
      | r # rs \<Rightarrow>
          if sorted_flag g
          then g\<lparr>g_min_key := key r, g_max_key := key (last (r # rs))\<rparr>
          else g\<lparr>g_min_key := fold min (map key rs) (key r),
                 g_max_key := fold max (map key rs) (key r)\<rparr>)"

definition add_row :: "Granule \<Rightarrow> Row \<Rightarrow> error + Granule" where
  "add_row g r =
     (if is_full g then Inl GranuleFull
      else Inr (update_key_range (g\<lparr>rows := rows g @ [r], sorted_flag := False\<rparr>)))"

definition Granule_sort :: "Granule \<Rightarrow> Granule" where
  "Granule_sort g =
     (if \<not> sorted_flag g
      then update_key_range (g\<lparr>rows := std_sort Row_less (rows g), sorted_flag := True\<rparr>)
      else g)"

text \<open>
  The loop of \<^verbatim>\<open>Granule::query_range\<close>, which \<^verbatim>\<open>MemTable::query\<close> repeats over the
  bottom level of its skip list: a row inside the range is collected, a row whose key is
  beyond \<open>end_key\<close> ends the loop (\<^verbatim>\<open>break\<close>), any other row is skipped.
\<close>

fun scan_range :: "string \<Rightarrow> string \<Rightarrow> Row list \<Rightarrow> Row list" where
  "scan_range start_key end_key [] = []"
| "scan_range start_key end_key (r # rs) =
     (if key r \<ge> start_key \<and> key r \<le> end_key then r # scan_range start_key end_key rs
      else if key r > end_key then []
      else scan_range start_key end_key rs)"

definition query_range :: "Granule \<Rightarrow> string \<Rightarrow> string \<Rightarrow> error + Row list" where
  "query_range g start_key end_key =
     (if \<not> sorted_flag g then Inl NotSorted
      else Inr (scan_range start_key end_key (rows g)))"

section \<open>Sparse index (sparse_index.h, sparse_index.cpp)\<close>

record IndexEntry =
  min_key :: string
  max_key :: string
  granule_index :: u64
  row_count :: u64

definition overlaps_range :: "IndexEntry \<Rightarrow> string \<Rightarrow> string \<Rightarrow> bool" where
  "overlaps_range e start_key end_key = (\<not> (max_key e < start_key \<or> min_key e > end_key))"

text \<open>A \<^verbatim>\<open>SparseIndex\<close> is its vector \<^verbatim>\<open>entries_\<close>.\<close>

type_synonym SparseIndex = "IndexEntry list"

definition add_entry :: "SparseIndex \<Rightarrow> string \<Rightarrow> string \<Rightarrow> u64 \<Rightarrow> u64 \<Rightarrow> SparseIndex" where
  "add_entry entries mn mx idx cnt =
     entries @ [\<lparr>min_key = mn, max_key = mx, granule_index = idx, row_count = cnt\<rparr>]"

fun find_granules :: "SparseIndex \<Rightarrow> string \<Rightarrow> string \<Rightarrow> u64 list" where
  "find_granules [] start_key end_key = []"
| "find_granules (e # es) start_key end_key =
     (if overlaps_range e start_key end_key
      then granule_index e # find_granules es start_key end_key
      else find_granules es start_key end_key)"

section \<open>Parts (part.h, part.cpp, serialization.cpp)\<close>

record PartMetadata =
  part_id :: u64
  m_min_key :: string
  m_max_key :: string
  min_timestamp :: u64
  max_timestamp :: u64
  m_row_count :: u64
  granule_count :: u64
  disk_size :: u64
  creation_time :: u64

text \<open>
  \<^verbatim>\<open>PartMetadata(size_t id)\<close>: both keys are empty strings. The constructor leaves the two
  timestamps uninitialised; nothing reads them before \<^verbatim>\<open>update_metadata\<close> or
  \<^verbatim>\<open>load_metadata\<close> sets them, and the model starts them at 0.
\<close>

definition PartMetadata_new :: "u64 \<Rightarrow> PartMetadata" where
  "PartMetadata_new i =
     \<lparr>part_id = i, m_min_key = [], m_max_key = [], min_timestamp = 0, max_timestamp = 0,
      m_row_count = 0, granule_count = 0, disk_size = 0, creation_time = 0\<rparr>"

text \<open>
  The files of a part directory \<^verbatim>\<open>base_path/part_<id>\<close>, by content rather than by bytes:
  \<^verbatim>\<open>metadata.bin\<close>, \<^verbatim>\<open>primary.idx\<close> (each may be missing) and, for granule \<open>i\<close>
  below the length of \<open>granule_files\<close>, the three column files of
  \<^verbatim>\<open>Serialization::write_granule\<close>.
\<close>

record GranuleFiles =
  keys_bin :: "string list"
  values_bin :: "string list"
  timestamps_bin :: "u64 list"

record PartFiles =
  metadata_bin :: "PartMetadata option"
  primary_idx :: "IndexEntry list option"
  granule_files :: "GranuleFiles list"

text \<open>
  A \<^verbatim>\<open>Part\<close> object together with the directory it names: \<open>directory\<close> is \<open>None\<close> when
  \<^verbatim>\<open>part_directory()\<close> does not exist. Each part carries its own directory, so two
  \<^verbatim>\<open>Part\<close> objects of one id are not aliased in this model.
\<close>

record Part =
  metadata :: PartMetadata
  granules :: "Granule list"
  index :: SparseIndex
  loaded :: bool
  directory :: "PartFiles option"

definition Part_new :: "u64 \<Rightarrow> PartFiles option \<Rightarrow> Part" where
  "Part_new i d =
     \<lparr>metadata = PartMetadata_new i, granules = [], index = [], loaded = False, directory = d\<rparr>"

definition exists_on_disk :: "Part \<Rightarrow> bool" where
  "exists_on_disk p = (case directory p of None \<Rightarrow> False | Some d \<Rightarrow> metadata_bin d \<noteq> None)"

text \<open>File sizes in bytes: a \<^verbatim>\<open>uint64\<close> takes 8, a string 8 and its length.\<close>

definition string_bytes :: "string \<Rightarrow> u64" where
  "string_bytes s = 8 + of_nat (length s)"

definition metadata_bytes :: "PartMetadata \<Rightarrow> u64" where
  "metadata_bytes m = 8 + string_bytes (m_min_key m) + string_bytes (m_max_key m) + 8 * 6"

definition index_bytes :: "IndexEntry list \<Rightarrow> u64" where
  "index_bytes es = 8 + sum_list (map (\<lambda>e. string_bytes (min_key e) + string_bytes (max_key e) + 16) es)"

definition granule_bytes :: "GranuleFiles \<Rightarrow> u64" where
  "granule_bytes f =
     (8 + sum_list (map string_bytes (keys_bin f)))
     + (8 + sum_list (map string_bytes (values_bin f)))
     + (8 + 8 * of_nat (length (timestamps_bin f)))"

text \<open>\<^verbatim>\<open>Part::disk_usage\<close>: the sizes of the regular files of the directory, added up.\<close>

definition disk_usage :: "Part \<Rightarrow> u64" where
  "disk_usage p =
     (if \<not> exists_on_disk p then 0
      else case directory p of
        None \<Rightarrow> 0
      | Some d \<Rightarrow>
          (case metadata_bin d of None \<Rightarrow> 0 | Some m \<Rightarrow> metadata_bytes m)
          + (case primary_idx d of None \<Rightarrow> 0 | Some es \<Rightarrow> index_bytes es)
          + sum_list (map granule_bytes (granule_files d)))"

definition Part_overlaps_range :: "Part \<Rightarrow> string \<Rightarrow> string \<Rightarrow> bool" where
  "Part_overlaps_range p start_key end_key =
     (\<not> (m_max_key (metadata p) < start_key \<or> m_min_key (metadata p) > end_key))"

text \<open>The loop of \<^verbatim>\<open>Serialization::read_granule\<close> that appends the rows one by one.\<close>

fun add_rows :: "Granule \<Rightarrow> Row list \<Rightarrow> error + Granule" where
  "add_rows g [] = Inr g"
| "add_rows g (r # rs) = (case add_row g r of Inl err \<Rightarrow> Inl err | Inr g' \<Rightarrow> add_rows g' rs)"

definition read_granule :: "PartFiles \<Rightarrow> nat \<Rightarrow> error + Granule" where
  "read_granule d i =
     (if i \<ge> length (granule_files d) then Inl IoError
      else
        let f = granule_files d ! i in
        if length (keys_bin f) \<noteq> length (values_bin f)
           \<or> length (keys_bin f) \<noteq> length (timestamps_bin f)
        then Inl DecodeError
        else
          case add_rows Granule_new
                 (map (\<lambda>(k, v, t). \<lparr>key = k, val = v, timestamp = t\<rparr>)
                    (zip (keys_bin f) (zip (values_bin f) (timestamps_bin f)))) of
            Inl err \<Rightarrow> Inl err
          | Inr g \<Rightarrow> Inr (Granule_sort g))"

text \<open>The loop of \<^verbatim>\<open>Part::load\<close> over \<open>i < granule_count\<close>, here over a list of indices.\<close>

fun read_granules :: "PartFiles \<Rightarrow> nat list \<Rightarrow> error + Granule list" where
  "read_granules d [] = Inr []"
| "read_granules d (i # is) =
     (case read_granule d i of
        Inl err \<Rightarrow> Inl err
      | Inr g \<Rightarrow> (case read_granules d is of Inl err \<Rightarrow> Inl err | Inr gs \<Rightarrow> Inr (g # gs)))"

text \<open>
  \<^verbatim>\<open>Part::load\<close>. A throw leaves the C++ object half updated; the model returns the error
  alone, since every caller lets the exception pass.
\<close>

definition load :: "Part \<Rightarrow> error + Part" where
  "load p =
     (if loaded p then Inr p
      else
        case directory p of
          None \<Rightarrow> Inl IoError
        | Some d \<Rightarrow>
            (case metadata_bin d of
               None \<Rightarrow> Inl IoError
             | Some m \<Rightarrow>
                 (case primary_idx d of
                    None \<Rightarrow> Inl IoError
                  | Some ix \<Rightarrow>
                      (case read_granules d [0..<unat (granule_count m)] of
                         Inl err \<Rightarrow> Inl err
                       | Inr gs \<Rightarrow>
                           Inr (p\<lparr>metadata := m, index := ix, granules := gs, loaded := True\<rparr>)))))"

definition unload :: "Part \<Rightarrow> Part" where
  "unload p = p\<lparr>granules := [], loaded := False\<rparr>"

text \<open>The loop of \<^verbatim>\<open>Part::query\<close> over the granule indices the sparse index returned.\<close>

fun query_granules :: "Granule list \<Rightarrow> u64 list \<Rightarrow> string \<Rightarrow> string \<Rightarrow> error + Row list" where
  "query_granules gs [] start_key end_key = Inr []"
| "query_granules gs (i # is) start_key end_key =
     (if unat i < length gs
      then
        case query_range (gs ! unat i) start_key end_key of
          Inl err \<Rightarrow> Inl err
        | Inr rs \<Rightarrow>
            (case query_granules gs is start_key end_key of
               Inl err \<Rightarrow> Inl err
             | Inr rest \<Rightarrow> Inr (rs @ rest))
      else query_granules gs is start_key end_key)"

definition Part_query :: "Part \<Rightarrow> string \<Rightarrow> string \<Rightarrow> error + (Part \<times> Row list)" where
  "Part_query p start_key end_key =
     (case load p of
        Inl err \<Rightarrow> Inl err
      | Inr p' \<Rightarrow>
          if \<not> Part_overlaps_range p' start_key end_key then Inr (p', [])
          else
            (case query_granules (granules p')
                    (find_granules (index p') start_key end_key) start_key end_key of
               Inl err \<Rightarrow> Inl err
             | Inr rs \<Rightarrow> Inr (p', rs)))"

definition get_all_rows :: "Part \<Rightarrow> error + (Part \<times> Row list)" where
  "get_all_rows p =
     (case load p of
        Inl err \<Rightarrow> Inl err
      | Inr p' \<Rightarrow> Inr (p', concat (map rows (granules p'))))"

text \<open>
  \<^verbatim>\<open>Part::update_metadata\<close> for a non-empty granule vector and \<^verbatim>\<open>Part::build_index\<close>.
  \<open>now\<close> is the system clock in seconds.
\<close>

definition update_metadata :: "PartMetadata \<Rightarrow> u64 \<Rightarrow> Granule list \<Rightarrow> PartMetadata" where
  "update_metadata m now gs =
     (let m1 = m\<lparr>granule_count := of_nat (length gs), m_row_count := 0, creation_time := now\<rparr>
      in if gs = [] then m1
         else m1\<lparr>m_min_key := g_min_key (hd gs),
                 m_max_key := g_max_key (last gs),
                 m_row_count := sum_list (map (\<lambda>g. of_nat (length (rows g))) gs),
                 min_timestamp := fold min (map timestamp (concat (map rows gs))) (- 1),
                 max_timestamp := fold max (map timestamp (concat (map rows gs))) 0\<rparr>)"

fun build_index_from :: "nat \<Rightarrow> Granule list \<Rightarrow> SparseIndex \<Rightarrow> SparseIndex" where
  "build_index_from i [] ix = ix"
| "build_index_from i (g # gs) ix =
     build_index_from (Suc i) gs
       (if \<not> is_empty g
        then add_entry ix (g_min_key g) (g_max_key g) (of_nat i) (of_nat (length (rows g)))
        else ix)"

definition build_index :: "Granule list \<Rightarrow> SparseIndex" where
  "build_index gs = build_index_from 0 gs []"

definition write_granule :: "Granule \<Rightarrow> GranuleFiles" where
  "write_granule g =
     \<lparr>keys_bin = map key (rows g), values_bin = map val (rows g),
      timestamps_bin = map timestamp (rows g)\<rparr>"

text \<open>
  \<^verbatim>\<open>Part::write_granules\<close>. The directory is written as a whole: files that an older
  directory of the same name held are not kept in the model.
\<close>

definition write_granules :: "Part \<Rightarrow> u64 \<Rightarrow> Granule list \<Rightarrow> error + Part" where
  "write_granules p now gs =
     (if gs = [] then Inl EmptyInput
      else
        let gs' = map Granule_sort gs;
            m = update_metadata (metadata p) now gs';
            ix = build_index gs'
        in Inr (p\<lparr>granules := gs', metadata := m, index := ix, loaded := True,
                  directory := Some \<lparr>metadata_bin = Some m, primary_idx = Some ix,
                                      granule_files = map write_granule gs'\<rparr>\<rparr>))"

text \<open>The packing loop of \<^verbatim>\<open>Part::write_from_memtable_rows\<close>.\<close>

fun pack_rows :: "Granule list \<Rightarrow> Granule \<Rightarrow> Row list \<Rightarrow> error + (Granule list \<times> Granule)" where
  "pack_rows gs cur [] = Inr (gs, cur)"
| "pack_rows gs cur (r # rs) =
     (if is_full cur
      then (case add_row Granule_new r of
              Inl err \<Rightarrow> Inl err
            | Inr cur' \<Rightarrow> pack_rows (gs @ [Granule_sort cur]) cur' rs)
      else (case add_row cur r of
              Inl err \<Rightarrow> Inl err
            | Inr cur' \<Rightarrow> pack_rows gs cur' rs))"

definition write_from_memtable_rows :: "Part \<Rightarrow> u64 \<Rightarrow> Row list \<Rightarrow> error + Part" where
  "write_from_memtable_rows p now rs =
     (if rs = [] then Inl EmptyInput
      else
        case pack_rows [] Granule_new (std_sort Row_less rs) of
          Inl err \<Rightarrow> Inl err
        | Inr (gs, cur) \<Rightarrow>
            write_granules p now (if \<not> is_empty cur then gs @ [Granule_sort cur] else gs))"

section \<open>Merger (merger.h, merger.cpp)\<close>

subsection \<open>The merge iterator\<close>

record RowWithSource =
  row :: Row
  part_index :: nat
  row_index :: nat

text \<open>\<^verbatim>\<open>RowWithSource::operator>\<close>: a greater key, or the same key and a smaller timestamp.\<close>

definition RowWithSource_greater :: "RowWithSource \<Rightarrow> RowWithSource \<Rightarrow> bool" where
  "RowWithSource_greater a b =
     (key (row a) > key (row b)
      \<or> (key (row a) = key (row b) \<and> timestamp (row a) < timestamp (row b)))"

text \<open>
  \<^verbatim>\<open>heap_\<close> is a \<^verbatim>\<open>std::priority_queue\<close> over \<^verbatim>\<open>std::greater<RowWithSource>\<close>: \<^verbatim>\<open>top()\<close> is
  an element that is \<^verbatim>\<open>operator>\<close> no other element, and \<^verbatim>\<open>pop()\<close> removes it. The model
  keeps the elements in a list in the order they were pushed. Which of several equivalent
  elements \<^verbatim>\<open>top()\<close> returns depends on the layout of the heap, which the standard leaves to
  the library: the parameter \<open>tie\<close> of \<open>heap_top\<close> stands for that choice. It is followed
  whenever it names an element of the heap that is \<^verbatim>\<open>operator>\<close> no other; otherwise
  \<open>heap_top_from\<close> takes the earliest pushed such element. The heap never holds the same
  cursors twice during one merge (every \<^verbatim>\<open>next()\<close> removes a cursor for good), so every
  behaviour of a conforming priority queue is the behaviour of the model for some
  \<open>tie\<close>, and the properties below are proved for all of them.
\<close>

type_synonym heap_choice = "RowWithSource list \<Rightarrow> RowWithSource"

fun heap_top_from :: "RowWithSource \<Rightarrow> RowWithSource list \<Rightarrow> RowWithSource" where
  "heap_top_from t [] = t"
| "heap_top_from t (x # xs) = heap_top_from (if RowWithSource_greater t x then x else t) xs"

definition heap_top :: "heap_choice \<Rightarrow> RowWithSource list \<Rightarrow> RowWithSource" where
  "heap_top tie h =
     (if tie h \<in> set h \<and> list_all (\<lambda>y. \<not> RowWithSource_greater (tie h) y) h
      then tie h
      else heap_top_from (hd h) (tl h))"

record MergeIterator =
  part_rows :: "Row list list"
  current_indices :: "nat list"
  heap :: "RowWithSource list"

text \<open>
  The constructor reads the rows of every part (\<^verbatim>\<open>get_all_rows\<close>, which may load and throw)
  and pushes one cursor for every part that has rows.
\<close>

fun all_part_rows :: "Part list \<Rightarrow> error + Row list list" where
  "all_part_rows [] = Inr []"
| "all_part_rows (p # ps) =
     (case get_all_rows p of
        Inl err \<Rightarrow> Inl err
      | Inr (p', rs) \<Rightarrow>
          (case all_part_rows ps of Inl err \<Rightarrow> Inl err | Inr rest \<Rightarrow> Inr (rs # rest)))"

fun initialize_heap :: "nat \<Rightarrow> Row list list \<Rightarrow> RowWithSource list \<Rightarrow> RowWithSource list" where
  "initialize_heap i [] h = h"
| "initialize_heap i (rs # rest) h =
     initialize_heap (Suc i) rest
       (case rs of [] \<Rightarrow> h | r # _ \<Rightarrow> h @ [\<lparr>row = r, part_index = i, row_index = 0\<rparr>])"

definition MergeIterator_new :: "Part list \<Rightarrow> error + MergeIterator" where
  "MergeIterator_new ps =
     (case all_part_rows ps of
        Inl err \<Rightarrow> Inl err
      | Inr rss \<Rightarrow>
          Inr \<lparr>part_rows = rss, current_indices = replicate (length ps) 0,
               heap = initialize_heap 0 rss []\<rparr>)"

definition has_next :: "MergeIterator \<Rightarrow> bool" where
  "has_next it = (heap it \<noteq> [])"

text \<open>
  \<^verbatim>\<open>MergeIterator::advance_part\<close>. An index outside the two vectors is undefined behaviour
  in C++ and \<open>OutOfRange\<close> here.
\<close>

definition advance_part :: "MergeIterator \<Rightarrow> nat \<Rightarrow> error + MergeIterator" where
  "advance_part it i =
     (if i < length (current_indices it) \<and> i < length (part_rows it)
      then
        let c = Suc (current_indices it ! i);
            it' = it\<lparr>current_indices := (current_indices it)[i := c]\<rparr>
        in if c < length (part_rows it ! i)
           then Inr (it'\<lparr>heap := heap it' @ [\<lparr>row = part_rows it ! i ! c, part_index = i, row_index = c\<rparr>]\<rparr>)
           else Inr it'
      else Inl OutOfRange)"

text \<open>\<^verbatim>\<open>MergeIterator::next\<close>: "No more rows to merge" is \<open>NoMoreRows\<close>.\<close>

definition MergeIterator_next :: "heap_choice \<Rightarrow> MergeIterator \<Rightarrow> error + (Row \<times> MergeIterator)" where
  "MergeIterator_next tie it =
     (case heap it of
        [] \<Rightarrow> Inl NoMoreRows
      | x # xs \<Rightarrow>
          let current = heap_top tie (x # xs) in
          (case advance_part (it\<lparr>heap := remove1 current (heap it)\<rparr>) (part_index current) of
             Inl err \<Rightarrow> Inl err
           | Inr it' \<Rightarrow> Inr (row current, it')))"

subsection \<open>Termination of the merge loop\<close>

text \<open>
  Every call of \<open>MergeIterator_next\<close> that returns lowers the number of rows not yet
  reached plus the number of cursors in the heap.
\<close>

definition remaining :: "MergeIterator \<Rightarrow> nat" where
  "remaining it =
     sum_list (map (\<lambda>(rs, c). length rs - c) (zip (part_rows it) (current_indices it)))
     + length (heap it)"

lemma heap_top_from_mem: "heap_top_from t xs \<in> set (t # xs)"
  by (induction xs arbitrary: t) auto

lemma heap_top_mem: "heap_top tie (x # xs) \<in> set (x # xs)"
  using heap_top_from_mem[of x xs] by (simp add: heap_top_def)

lemma sum_list_update_le:
  fixes f :: "'a \<Rightarrow> nat"
  assumes "i < length xs" "f y \<le> f (xs ! i)"
  shows "sum_list (map f (xs[i := y])) + f (xs ! i) = sum_list (map f xs) + f y"
  using assms
proof (induction xs arbitrary: i)
  case Nil
  then show ?case by simp
next
  case (Cons x xs)
  then show ?case by (cases i) auto
qed

lemma advance_part_remaining:
  assumes "advance_part it i = Inr it'"
  shows "remaining it' \<le> remaining it"
proof -
  from assms have i: "i < length (current_indices it)" "i < length (part_rows it)"
    by (auto simp: advance_part_def split: if_splits)
  let ?f = "\<lambda>(rs, c). length rs - c"
  let ?z = "zip (part_rows it) (current_indices it)"
  let ?c = "Suc (current_indices it ! i)"
  have z: "zip (part_rows it) ((current_indices it)[i := ?c]) = ?z[i := (part_rows it ! i, ?c)]"
    by (metis list_update_id zip_update)
  from i have iz: "i < length ?z" by simp
  have zi: "?z ! i = (part_rows it ! i, current_indices it ! i)" using i by simp
  have le: "?f (part_rows it ! i, ?c) \<le> ?f (?z ! i)" using zi by simp
  note upd = sum_list_update_le[of i ?z ?f, OF iz le]
  show ?thesis
  proof (cases "?c < length (part_rows it ! i)")
    case True
    then have "?f (?z ! i) = Suc (?f (part_rows it ! i, ?c))" using zi by auto
    with upd True assms i z show ?thesis
      by (auto simp: advance_part_def remaining_def Let_def)
  next
    case False
    with upd assms i z show ?thesis
      by (auto simp: advance_part_def remaining_def Let_def)
  qed
qed

lemma MergeIterator_next_remaining:
  assumes "MergeIterator_next tie it = Inr (r, it')"
  shows "remaining it' < remaining it"
proof -
  from assms obtain x xs where h: "heap it = x # xs"
    by (auto simp: MergeIterator_next_def split: list.splits)
  let ?cur = "heap_top tie (x # xs)"
  from assms h have adv: "advance_part (it\<lparr>heap := remove1 ?cur (heap it)\<rparr>) (part_index ?cur) = Inr it'"
    by (auto simp: MergeIterator_next_def Let_def split: sum.splits)
  have "?cur \<in> set (heap it)" using heap_top_mem[of tie x xs] h by simp
  then have "length (remove1 ?cur (heap it)) < length (heap it)"
    by (simp add: length_remove1) (cases "heap it"; simp)
  then have "remaining (it\<lparr>heap := remove1 ?cur (heap it)\<rparr>) < remaining it"
    by (simp add: remaining_def)
  with advance_part_remaining[OF adv] show ?thesis by simp
qed

subsection \<open>Merging\<close>

text \<open>
  The \<^verbatim>\<open>while (iterator.has_next())\<close> loop of \<^verbatim>\<open>Merger::merge_rows\<close>: a row is appended
  unless key and timestamp both equal those of the row appended last.
\<close>

function merge_loop :: "heap_choice \<Rightarrow> MergeIterator \<Rightarrow> Row list \<Rightarrow> error + Row list" where
  "merge_loop tie it merged_rows =
     (if has_next it
      then
        case MergeIterator_next tie it of
          Inl err \<Rightarrow> Inl err
        | Inr (current_row, it') \<Rightarrow>
            merge_loop tie it'
              (if merged_rows = []
                  \<or> key (last merged_rows) \<noteq> key current_row
                  \<or> timestamp (last merged_rows) \<noteq> timestamp current_row
               then merged_rows @ [current_row]
               else merged_rows)
      else Inr merged_rows)"
  by pat_completeness auto
termination
  by (relation "measure (\<lambda>(tie, it, merged_rows). remaining it)")
    (auto dest: MergeIterator_next_remaining)

declare merge_loop.simps [simp del]

definition merge_rows :: "heap_choice \<Rightarrow> Part list \<Rightarrow> error + Row list" where
  "merge_rows tie ps =
     (if ps = [] then Inr []
      else case MergeIterator_new ps of
             Inl err \<Rightarrow> Inl err
           | Inr it \<Rightarrow> merge_loop tie it [])"

text \<open>
  \<^verbatim>\<open>Merger::merge_parts\<close>. \<open>next_id\<close> is \<^verbatim>\<open>next_part_id_\<close>, which \<^verbatim>\<open>Merger::get_next_part_id\<close>
  returns without advancing it; \<open>now\<close> is the clock. The new part's directory is written
  as a whole, so it starts as absent.
\<close>

definition merge_parts :: "heap_choice \<Rightarrow> u64 \<Rightarrow> u64 \<Rightarrow> Part list \<Rightarrow> error + Part" where
  "merge_parts tie next_id now ps =
     (if ps = [] then Inl EmptyInput
      else if length ps = 1 then Inr (hd ps)
      else
        case merge_rows tie ps of
          Inl err \<Rightarrow> Inl err
        | Inr merged_rows \<Rightarrow>
            if merged_rows = [] then Inl EmptyMergeResult
            else write_from_memtable_rows (Part_new next_id None) now merged_rows)"

subsection \<open>Candidate selection\<close>

text \<open>
  The score of a candidate is a \<^verbatim>\<open>double\<close>. Floating-point arithmetic is not modelled: the
  selection takes the scoring function as a parameter \<open>calc\<close> with values in any linear
  order, and \<open>calculate_merge_score\<close> below reads the formula of the source over the real
  numbers, for concrete runs.
\<close>

record 's MergeCandidate =
  part_indices :: "nat list"
  total_rows :: u64
  total_size :: u64
  score :: 's

text \<open>
  \<^verbatim>\<open>Merger::calculate_merge_score\<close> over the reals. \<open>- 1\<close> is \<^verbatim>\<open>SIZE_MAX\<close>; the sums of rows
  and sizes are \<^verbatim>\<open>size_t\<close> sums.
\<close>

definition calculate_merge_score :: "nat list \<Rightarrow> Part list \<Rightarrow> real" where
  "calculate_merge_score idxs ps =
     (if idxs = [] then 0
      else if \<not> list_all (\<lambda>i. i < length ps) idxs then 0
      else
        let sizes = map (\<lambda>i. disk_usage (ps ! i)) idxs;
            total_rows = sum_list (map (\<lambda>i. m_row_count (metadata (ps ! i))) idxs);
            total_size = sum_list sizes;
            min_size = fold min sizes (- 1);
            max_size = fold max sizes 0
        in if total_rows = 0 \<or> total_size = 0 then 0
           else
             let size_ratio = real (unat min_size) / real (unat max_size);
                 parts_factor = 1 / real (length idxs);
                 size_factor = min 1 (real (unat total_size) / (10 * 1024 * 1024))
             in size_ratio * parts_factor * size_factor * 100)"

text \<open>
  The body of both enumeration loops: the candidate for the indices \<open>idxs\<close>. Reading
  \<^verbatim>\<open>parts[i]\<close> with \<open>i\<close> outside the vector is \<open>OutOfRange\<close>.
\<close>

definition candidate_of ::
  "(nat list \<Rightarrow> Part list \<Rightarrow> 's) \<Rightarrow> Part list \<Rightarrow> nat list \<Rightarrow> 's MergeCandidate" where
  "candidate_of calc ps idxs =
     \<lparr>part_indices = idxs,
      total_rows = sum_list (map (\<lambda>i. m_row_count (metadata (ps ! i))) idxs),
      total_size = sum_list (map (\<lambda>i. disk_usage (ps ! i)) idxs),
      score = calc idxs ps\<rparr>"

definition make_candidate ::
  "(nat list \<Rightarrow> Part list \<Rightarrow> 's) \<Rightarrow> Part list \<Rightarrow> nat list \<Rightarrow> error + 's MergeCandidate" where
  "make_candidate calc ps idxs =
     (if list_all (\<lambda>i. i < length ps) idxs then Inr (candidate_of calc ps idxs)
      else Inl OutOfRange)"

text \<open>
  An enumeration loop over the index lists \<open>idxss\<close>. Every loop of the source repeats the
  condition \<^verbatim>\<open>candidates.size() < max_candidates\<close>: once it fails, the loop and every loop
  around it end. A candidate is kept when its score is positive.
\<close>

fun collect_candidates ::
  "(nat list \<Rightarrow> Part list \<Rightarrow> 's::{linorder,zero}) \<Rightarrow> Part list \<Rightarrow> nat \<Rightarrow> nat list list
     \<Rightarrow> 's MergeCandidate list \<Rightarrow> error + 's MergeCandidate list" where
  "collect_candidates calc ps max_candidates [] candidates = Inr candidates"
| "collect_candidates calc ps max_candidates (idxs # rest) candidates =
     (if length candidates < max_candidates
      then
        case make_candidate calc ps idxs of
          Inl err \<Rightarrow> Inl err
        | Inr candidate \<Rightarrow>
            collect_candidates calc ps max_candidates rest
              (if score candidate > 0 then candidates @ [candidate] else candidates)
      else Inr candidates)"

text \<open>
  The index lists in the order the loops visit them: \<open>{i, j}\<close> for \<open>i < n\<close> and
  \<open>i < j < n\<close>, then \<open>{i, i + 1, i + 2}\<close> for \<open>i\<close> below the bound \<^verbatim>\<open>parts.size() - 2\<close>, a
  \<^verbatim>\<open>size_t\<close> subtraction.
\<close>

definition pair_indices :: "nat \<Rightarrow> nat list list" where
  "pair_indices n = concat (map (\<lambda>i. map (\<lambda>j. [i, j]) [Suc i..<n]) [0..<n])"

definition triple_bound :: "Part list \<Rightarrow> u64" where
  "triple_bound ps = of_nat (length ps) - 2"

definition triple_indices :: "nat \<Rightarrow> nat list list" where
  "triple_indices b = map (\<lambda>i. [i, i + 1, i + 2]) [0..<b]"

text \<open>
  \<^verbatim>\<open>Merger::select_merge_candidates\<close>: nothing for fewer than two parts, else the pairs,
  the triples and \<^verbatim>\<open>std::sort\<close> by descending score.
\<close>

definition select_merge_candidates ::
  "(nat list \<Rightarrow> Part list \<Rightarrow> 's::{linorder,zero}) \<Rightarrow> Part list \<Rightarrow> nat
     \<Rightarrow> error + 's MergeCandidate list" where
  "select_merge_candidates calc ps max_candidates =
     (if length ps < 2 then Inr []
      else
        case collect_candidates calc ps max_candidates (pair_indices (length ps)) [] of
          Inl err \<Rightarrow> Inl err
        | Inr pairs \<Rightarrow>
            (case collect_candidates calc ps max_candidates
                    (triple_indices (unat (triple_bound ps))) pairs of
               Inl err \<Rightarrow> Inl err
             | Inr candidates \<Rightarrow> Inr (std_sort (\<lambda>a b. score a > score b) candidates)))"

section \<open>MemTable (memtable.h, memtable.cpp)\<close>

text \<open>
  The memtable is a skip list; its bottom level \<^verbatim>\<open>forward[0]\<close> links every node, and the
  model is that chain as a list. \<^verbatim>\<open>MemTable::insert\<close> puts the new node behind the last
  node whose row is less than the new row; the higher levels and the random level of a
  node only shorten the search.
\<close>

type_synonym MemTable = "Row list"

definition MemTable_insert :: "MemTable \<Rightarrow> Row \<Rightarrow> MemTable" where
  "MemTable_insert m r = insert_by Row_less r m"

definition MemTable_query :: "MemTable \<Rightarrow> string \<Rightarrow> string \<Rightarrow> Row list" where
  "MemTable_query m start_key end_key = scan_range start_key end_key m"

definition MemTable_get_all_rows :: "MemTable \<Rightarrow> Row list" where
  "MemTable_get_all_rows m = m"

section \<open>The engine (merge_tree.h, merge_tree.cpp)\<close>

text \<open>
  The engine state: the memtable, the parts and the \<^verbatim>\<open>next_part_id_\<close> of its \<^verbatim>\<open>Merger\<close>.
  Locks, the background thread and the configuration are left out.
\<close>

record MergeTree =
  memtable :: MemTable
  parts :: "Part list"
  next_part_id :: u64

text \<open>
  The loop of \<^verbatim>\<open>MergeTree::query\<close> over the parts. A part is asked only when the range
  overlaps the metadata it holds at that moment; asking may load it.
\<close>

fun query_parts :: "Part list \<Rightarrow> string \<Rightarrow> string \<Rightarrow> error + (Part list \<times> Row list)" where
  "query_parts [] start_key end_key = Inr ([], [])"
| "query_parts (p # ps) start_key end_key =
     (if Part_overlaps_range p start_key end_key
      then
        case Part_query p start_key end_key of
          Inl err \<Rightarrow> Inl err
        | Inr (p', rs) \<Rightarrow>
            (case query_parts ps start_key end_key of
               Inl err \<Rightarrow> Inl err
             | Inr (ps', rest) \<Rightarrow> Inr (p' # ps', rs @ rest))
      else
        case query_parts ps start_key end_key of
          Inl err \<Rightarrow> Inl err
        | Inr (ps', rest) \<Rightarrow> Inr (p # ps', rest))"

definition MergeTree_query :: "MergeTree \<Rightarrow> string \<Rightarrow> string \<Rightarrow> error + (MergeTree \<times> Row list)" where
  "MergeTree_query st start_key end_key =
     (case query_parts (parts st) start_key end_key of
        Inl err \<Rightarrow> Inl err
      | Inr (ps', part_results) \<Rightarrow>
          Inr (st\<lparr>parts := ps'\<rparr>,
               std_unique same_key_ts
                 (std_sort Row_less (MemTable_query (memtable st) start_key end_key @ part_results))))"

subsection \<open>Recovery\<close>

text \<open>
  An entry of \<^verbatim>\<open>base_path\<close> as \<^verbatim>\<open>std::filesystem::directory_iterator\<close> yields it, in the
  order of the iteration: its name, whether it is a directory, and the part files inside.
\<close>

record DirEntry =
  filename :: string
  is_directory :: bool
  files :: PartFiles

text \<open>
  \<^verbatim>\<open>std::stoull(str)\<close>, that is \<^verbatim>\<open>strtoull\<close> in base 10: leading white space is skipped, a
  sign is accepted (a minus sign negates in unsigned arithmetic), the longest run of
  decimal digits is the value and whatever follows it is ignored. No digit
  (\<^verbatim>\<open>std::invalid_argument\<close>) and a value of \<open>2 ^ 64\<close> or more (\<^verbatim>\<open>std::out_of_range\<close>) are
  \<open>None\<close>: the caller catches both and skips the entry.
\<close>

definition isspace :: "char \<Rightarrow> bool" where
  "isspace c = (of_char c = (32 :: nat) \<or> (9 \<le> (of_char c :: nat) \<and> (of_char c :: nat) \<le> 13))"

definition isdigit :: "char \<Rightarrow> bool" where
  "isdigit c = (48 \<le> (of_char c :: nat) \<and> (of_char c :: nat) \<le> 57)"

definition digits_value :: "string \<Rightarrow> nat" where
  "digits_value ds = foldl (\<lambda>a c. 10 * a + (of_char c - 48)) 0 ds"

definition stoull :: "string \<Rightarrow> u64 option" where
  "stoull str =
     (let s1 = dropWhile isspace str;
          negative = (s1 \<noteq> [] \<and> hd s1 = CHR ''-'');
          s2 = (if s1 \<noteq> [] \<and> (hd s1 = CHR ''-'' \<or> hd s1 = CHR ''+'') then tl s1 else s1);
          ds = takeWhile isdigit s2
      in if ds = [] then None
         else if digits_value ds \<ge> 2 ^ 64 then None
         else Some (if negative then - of_nat (digits_value ds) else of_nat (digits_value ds)))"

text \<open>\<^verbatim>\<open>std::to_string\<close> of a \<^verbatim>\<open>size_t\<close>: its decimal digits.\<close>

fun to_string :: "nat \<Rightarrow> string" where
  "to_string n =
     (if n < 10 then [char_of (48 + n)]
      else to_string (n div 10) @ [char_of (48 + n mod 10)])"

declare to_string.simps [simp del]

text \<open>
  The first loop of \<^verbatim>\<open>MergeTree::load_existing_parts\<close>: the ids, in the order of the
  listing, of the directories whose name starts with \<open>part_\<close> and continues with text
  that \<^verbatim>\<open>std::stoull\<close> accepts.
\<close>

fun scan_part_ids :: "DirEntry list \<Rightarrow> u64 list" where
  "scan_part_ids [] = []"
| "scan_part_ids (e # es) =
     (if is_directory e \<and> take 5 (filename e) = ''part_''
      then (case stoull (drop 5 (filename e)) of
              Some i \<Rightarrow> i # scan_part_ids es
            | None \<Rightarrow> scan_part_ids es)
      else scan_part_ids es)"

text \<open>
  \<^verbatim>\<open>Part::part_directory\<close>, relative to \<^verbatim>\<open>base_path\<close>, and the files the listing holds under
  that name.
\<close>

definition part_directory :: "u64 \<Rightarrow> string" where
  "part_directory i = ''part_'' @ to_string (unat i)"

definition find_directory :: "DirEntry list \<Rightarrow> string \<Rightarrow> PartFiles option" where
  "find_directory es name =
     (case filter (\<lambda>e. filename e = name \<and> is_directory e) es of
        [] \<Rightarrow> None
      | e # _ \<Rightarrow> Some (files e))"

text \<open>
  \<^verbatim>\<open>MergeTree::load_existing_parts\<close>; \<open>fs\<close> is \<open>None\<close> when \<^verbatim>\<open>base_path\<close> does not exist. The
  constructor creates the directory first and starts the merger at part id 1
  (\<^verbatim>\<open>Merger::Merger\<close>).
\<close>

definition load_existing_parts :: "DirEntry list option \<Rightarrow> MergeTree \<Rightarrow> MergeTree" where
  "load_existing_parts fs st =
     (case fs of
        None \<Rightarrow> st
      | Some es \<Rightarrow>
          let part_ids = std_sort (<) (scan_part_ids es);
              found = filter exists_on_disk
                        (map (\<lambda>i. Part_new i (find_directory es (part_directory i))) part_ids)
          in st\<lparr>parts := parts st @ found,
                next_part_id := (if part_ids \<noteq> [] then last part_ids + 1 else next_part_id st)\<rparr>)"

definition create_base_directory :: "DirEntry list option \<Rightarrow> DirEntry list option" where
  "create_base_directory fs = (case fs of None \<Rightarrow> Some [] | Some es \<Rightarrow> Some es)"

definition MergeTree_new :: "DirEntry list option \<Rightarrow> MergeTree" where
  "MergeTree_new fs =
     load_existing_parts (create_base_directory fs) \<lparr>memtable = [], parts = [], next_part_id = 1\<rparr>"

subsection \<open>Names of part directories\<close>

text \<open>
  The names \<^verbatim>\<open>Part::part_directory\<close> gives and the recovery is written for, used to state
  what the recovery does: \<open>part_\<close> followed by decimal digits and nothing else, the digits
  of an id below \<open>2 ^ 64 - 1\<close> (so that the id after it is a \<^verbatim>\<open>size_t\<close> too). \<open>named_ids\<close> are
  the ids of the directories so named, in the order of the listing. \<open>id_text_start\<close> holds
  of the characters a number may start with for \<^verbatim>\<open>std::stoull\<close> (white space, a sign, a
  digit), and an entry is \<open>well_named\<close> unless it is a directory whose name goes on after
  \<open>part_\<close> with such a character and is not named as above.
\<close>

definition decimal_id :: "string \<Rightarrow> bool" where
  "decimal_id t = (t \<noteq> [] \<and> list_all isdigit t \<and> digits_value t < 2 ^ 64 - 1)"

definition part_named :: "DirEntry \<Rightarrow> bool" where
  "part_named e =
     (is_directory e \<and> take 5 (filename e) = ''part_'' \<and> decimal_id (drop 5 (filename e)))"

definition named_ids :: "DirEntry list \<Rightarrow> nat list" where
  "named_ids es = map (\<lambda>e. digits_value (drop 5 (filename e))) (filter part_named es)"

definition id_text_start :: "char \<Rightarrow> bool" where
  "id_text_start c = (isspace c \<or> c = CHR ''-'' \<or> c = CHR ''+'' \<or> isdigit c)"

definition well_named :: "DirEntry \<Rightarrow> bool" where
  "well_named e =
     (part_named e
      \<or> \<not> (is_directory e \<and> take 5 (filename e) = ''part_''
             \<and> drop 5 (filename e) \<noteq> [] \<and> id_text_start (hd (drop 5 (filename e)))))"

text \<open>
  Parts as the engine holds them: written by \<^verbatim>\<open>write_granules\<close> or loaded (resident, every
  granule flagged sorted), or fresh from recovery (not loaded, metadata as constructed).
\<close>

definition part_ready :: "Part \<Rightarrow> bool" where
  "part_ready p = (loaded p \<and> list_all sorted_flag (granules p))"

definition part_fresh :: "Part \<Rightarrow> bool" where
  "part_fresh p = (\<not> loaded p \<and> m_min_key (metadata p) = [] \<and> m_max_key (metadata p) = [])"

definition part_ok :: "Part \<Rightarrow> bool" where
  "part_ok p = (part_ready p \<or> part_fresh p)"

section \<open>Example data\<close>

text \<open>
  A small engine for the concrete instances below: one part, as
  \<^verbatim>\<open>write_from_memtable_rows\<close> builds it from three rows at clock value 7, and a memtable
  with two rows of key \<open>key2\<close>, one of which repeats a row of the part.
\<close>

definition example_rows :: "Row list" where
  "example_rows =
     [\<lparr>key = ''key3'', val = ''v3'', timestamp = 3000\<rparr>,
      \<lparr>key = ''key1'', val = ''v1'', timestamp = 1000\<rparr>,
      \<lparr>key = ''key2'', val = ''v2'', timestamp = 2000\<rparr>]"

definition example_part :: Part where
  "example_part =
     \<lparr>metadata = \<lparr>part_id = 9, m_min_key = ''key1'', m_max_key = ''key3'',
                   min_timestamp = 1000, max_timestamp = 3000, m_row_count = 3,
                   granule_count = 1, disk_size = 0, creation_time = 7\<rparr>,
      granules = [\<lparr>rows = [\<lparr>key = ''key1'', val = ''v1'', timestamp = 1000\<rparr>,
                              \<lparr>key = ''key2'', val = ''v2'', timestamp = 2000\<rparr>,
                              \<lparr>key = ''key3'', val = ''v3'', timestamp = 3000\<rparr>],
                   g_min_key = ''key1'', g_max_key = ''key3'', sorted_flag = True\<rparr>],
      index = [\<lparr>min_key = ''key1'', max_key = ''key3'', granule_index = 0, row_count = 3\<rparr>],
      loaded = True,
      directory = Some \<lparr>metadata_bin = Some \<lparr>part_id = 9, m_min_key = ''key1'', m_max_key = ''key3'',
                   min_timestamp = 1000, max_timestamp = 3000, m_row_count = 3,
                   granule_count = 1, disk_size = 0, creation_time = 7\<rparr>,
         primary_idx = Some [\<lparr>min_key = ''key1'', max_key = ''key3'', granule_index = 0, row_count = 3\<rparr>],
         granule_files = [\<lparr>keys_bin = [''key1'', ''key2'', ''key3''], values_bin = [''v1'', ''v2'', ''v3''],
            timestamps_bin = [1000, 2000, 3000]\<rparr>]\<rparr>\<rparr>"

definition example_engine :: MergeTree where
  "example_engine =
     \<lparr>memtable = [\<lparr>key = ''key2'', val = ''v2'', timestamp = 2000\<rparr>,
                  \<lparr>key = ''key2'', val = ''w2'', timestamp = 2500\<rparr>],
      parts = [example_part], next_part_id = 10\<rparr>"

text \<open>
  \<open>written_part i rs\<close> is the part with id \<open>i\<close> that \<^verbatim>\<open>write_from_memtable_rows\<close> writes from
  the rows \<open>rs\<close> at clock value 0.
\<close>

definition written_part :: "u64 \<Rightarrow> Row list \<Rightarrow> Part" where
  "written_part i rs =
     (case write_from_memtable_rows (Part_new i None) 0 rs of
        Inr p \<Rightarrow> p
      | Inl err \<Rightarrow> Part_new i None)"

definition part_a :: Part where
  "part_a = written_part 1 [\<lparr>key = ''k'', val = ''a1'', timestamp = 1\<rparr>,
                            \<lparr>key = ''k'', val = ''a3'', timestamp = 3\<rparr>]"

definition part_b :: Part where
  "part_b = written_part 2 [\<lparr>key = ''k'', val = ''b2'', timestamp = 2\<rparr>,
                            \<lparr>key = ''k'', val = ''b3'', timestamp = 3\<rparr>]"

definition part_c :: Part where
  "part_c = written_part 3 [\<lparr>key = ''k'', val = ''c1'', timestamp = 1\<rparr>,
                            \<lparr>key = ''k'', val = ''c2'', timestamp = 2\<rparr>]"

definition part_e :: Part where
  "part_e = written_part 4 [\<lparr>key = ''m'', val = ''e5'', timestamp = 5\<rparr>]"

definition example_parts :: "Part list" where
  "example_parts = [example_part, part_a, part_b]"

text \<open>
  A listing of \<^verbatim>\<open>base_path\<close>: the directories of the parts 3 and 1, a directory \<open>part_5\<close>
  without \<^verbatim>\<open>metadata.bin\<close>, a regular file \<open>part_9\<close> and two directories that are no part.
\<close>

definition no_files :: PartFiles where
  "no_files = \<lparr>metadata_bin = None, primary_idx = None, granule_files = []\<rparr>"

definition files_of :: "Part \<Rightarrow> PartFiles" where
  "files_of p = (case directory p of Some d \<Rightarrow> d | None \<Rightarrow> no_files)"

definition example_listing :: "DirEntry list" where
  "example_listing =
     [\<lparr>filename = ''part_3'', is_directory = True, files = files_of part_c\<rparr>,
      \<lparr>filename = ''notes'', is_directory = True, files = no_files\<rparr>,
      \<lparr>filename = ''part_1'', is_directory = True, files = files_of part_a\<rparr>,
      \<lparr>filename = ''part_9'', is_directory = False, files = no_files\<rparr>,
      \<lparr>filename = ''part_5'', is_directory = True, files = no_files\<rparr>,
      \<lparr>filename = ''part_x'', is_directory = True, files = no_files\<rparr>]"

section \<open>Invariants of the merge iterator\<close>

text \<open>
  A cursor of the heap is accurate when it names a part, that part's current index is
  inside its rows and the cursor's row is the row at that index. The iterator is well
  formed when every row vector has ascending keys, no two cursors name the same part and
  every cursor is accurate. \<open>part_key_sorted\<close>: the rows of a part, granule after granule,
  can be read and have ascending keys.
\<close>

definition cursor_ok :: "MergeIterator \<Rightarrow> RowWithSource \<Rightarrow> bool" where
  "cursor_ok it x =
     (part_index x < length (part_rows it)
      \<and> current_indices it ! part_index x < length (part_rows it ! part_index x)
      \<and> row x = part_rows it ! part_index x ! (current_indices it ! part_index x))"

definition cursors_ok :: "MergeIterator \<Rightarrow> bool" where
  "cursors_ok it =
     (length (current_indices it) = length (part_rows it)
      \<and> list_all (\<lambda>rs. sorted (map key rs)) (part_rows it)
      \<and> distinct (map part_index (heap it))
      \<and> list_all (cursor_ok it) (heap it))"

definition part_key_sorted :: "Part \<Rightarrow> bool" where
  "part_key_sorted p =
     (case get_all_rows p of Inl err \<Rightarrow> False | Inr (p', rs) \<Rightarrow> sorted (map key rs))"

section \<open>Properties\<close>

subsection \<open>Sorting and deduplication\<close>

lemma set_insert_by: "set (insert_by lt x ys) = insert x (set ys)"
  by (induction ys) auto

lemma set_std_sort: "set (std_sort lt xs) = set xs"
  unfolding std_sort_def by (induction xs) (simp_all add: set_insert_by)

lemma mset_insert_by: "mset (insert_by lt x ys) = add_mset x (mset ys)"
  by (induction ys) auto

lemma mset_std_sort: "mset (std_sort lt xs) = mset xs"
  unfolding std_sort_def by (induction xs) (simp_all add: mset_insert_by)

text \<open>
  A comparator that is asymmetric and whose negation is transitive (a strict weak order,
  as \<^verbatim>\<open>std::sort\<close> requires) gives a sorted result.
\<close>

lemma sorted_insert_by:
  assumes asym: "\<And>a b. lt a b \<Longrightarrow> \<not> lt b a"
    and ntrans: "\<And>a b c. \<not> lt a b \<Longrightarrow> \<not> lt b c \<Longrightarrow> \<not> lt a c"
  shows "sorted_wrt (\<lambda>a b. \<not> lt b a) ys \<Longrightarrow> sorted_wrt (\<lambda>a b. \<not> lt b a) (insert_by lt x ys)"
proof (induction ys)
  case Nil
  then show ?case by simp
next
  case (Cons y ys)
  show ?case
  proof (cases "lt y x")
    case True
    with Cons show ?thesis
      by (auto simp: set_insert_by dest: asym)
  next
    case False
    have "\<not> lt z x" if "z \<in> set ys" for z
    proof -
      from Cons.prems that have "\<not> lt z y" by simp
      with False show ?thesis using ntrans by blast
    qed
    with Cons.prems False show ?thesis by auto
  qed
qed

lemma sorted_std_sort_by:
  assumes "\<And>a b. lt a b \<Longrightarrow> \<not> lt b a"
    and "\<And>a b c. \<not> lt a b \<Longrightarrow> \<not> lt b c \<Longrightarrow> \<not> lt a c"
  shows "sorted_wrt (\<lambda>a b. \<not> lt b a) (std_sort lt xs)"
  unfolding std_sort_def
  by (induction xs) (simp_all add: sorted_insert_by[of lt, OF assms])

lemma Row_less_total: "\<not> Row_less a b \<Longrightarrow> \<not> Row_less b c \<Longrightarrow> \<not> Row_less a c"
  by (auto simp: Row_less_def split: if_splits)

lemma Row_less_asym: "Row_less a b \<Longrightarrow> \<not> Row_less b a"
  by (auto simp: Row_less_def split: if_splits)

lemma sorted_std_sort: "sorted_wrt (\<lambda>a b. \<not> Row_less b a) (std_sort Row_less xs)"
  by (rule sorted_std_sort_by) (blast dest: Row_less_asym Row_less_total)+

lemma scan_range_set:
  "r \<in> set (scan_range s e rs) \<Longrightarrow> s \<le> key r \<and> key r \<le> e \<and> r \<in> set rs"
  by (induction rs) (auto split: if_splits)

lemma query_range_set:
  "query_range g s e = Inr rs \<Longrightarrow> \<forall>r\<in>set rs. s \<le> key r \<and> key r \<le> e"
  by (auto simp: query_range_def split: if_splits dest: scan_range_set)

lemma query_granules_set:
  "query_granules gs is s e = Inr rs \<Longrightarrow> \<forall>r\<in>set rs. s \<le> key r \<and> key r \<le> e"
proof (induction "is" arbitrary: rs)
  case Nil
  then show ?case by simp
next
  case (Cons i "is")
  show ?case
  proof (cases "unat i < length gs")
    case True
    with Cons.prems obtain r1 r2 where
      q: "query_range (gs ! unat i) s e = Inr r1" "query_granules gs is s e = Inr r2" "rs = r1 @ r2"
      by (auto split: sum.splits)
    from query_range_set[OF q(1)] Cons.IH[OF q(2)] q(3) show ?thesis by auto
  next
    case False
    with Cons show ?thesis by simp
  qed
qed

lemma Part_query_set:
  "Part_query p s e = Inr (p', rs) \<Longrightarrow> \<forall>r\<in>set rs. s \<le> key r \<and> key r \<le> e"
  by (auto simp: Part_query_def split: sum.splits if_splits dest!: query_granules_set)

lemma query_parts_set:
  "query_parts ps s e = Inr (ps', rs) \<Longrightarrow> \<forall>r\<in>set rs. s \<le> key r \<and> key r \<le> e"
proof (induction ps arbitrary: ps' rs)
  case Nil
  then show ?case by simp
next
  case (Cons p ps)
  show ?case
  proof (cases "Part_overlaps_range p s e")
    case True
    with Cons.prems obtain p' r1 ps1 r2 where
      q: "Part_query p s e = Inr (p', r1)" "query_parts ps s e = Inr (ps1, r2)" "rs = r1 @ r2"
      by (auto split: sum.splits)
    from Part_query_set[OF q(1)] Cons.IH[OF q(2)] q(3) show ?thesis by auto
  next
    case False
    with Cons.prems obtain ps1 where "query_parts ps s e = Inr (ps1, rs)"
      by (auto split: sum.splits)
    then show ?thesis by (rule Cons.IH)
  qed
qed

lemma set_std_unique: "set (std_unique eq xs) \<subseteq> set xs"
  by (induction eq xs rule: std_unique.induct) auto

lemma sorted_wrt_std_unique: "sorted_wrt P xs \<Longrightarrow> sorted_wrt P (std_unique eq xs)"
proof (induction eq xs rule: std_unique.induct)
  case (3 eq x y ys)
  then show ?case using set_std_unique[of eq "y # ys"] by auto
qed simp_all

lemma Row_less_trans_le: "Row_less x y \<Longrightarrow> \<not> Row_less z y \<Longrightarrow> Row_less x z"
  by (auto simp: Row_less_def split: if_splits)

lemma Row_less_or_same: "\<not> Row_less y x \<Longrightarrow> \<not> same_key_ts x y \<Longrightarrow> Row_less x y"
  by (auto simp: Row_less_def same_key_ts_def split: if_splits)

lemma strict_std_unique:
  "sorted_wrt (\<lambda>a b. \<not> Row_less b a) xs \<Longrightarrow> sorted_wrt Row_less (std_unique same_key_ts xs)"
proof (induction same_key_ts xs rule: std_unique.induct)
  case (3 x y ys)
  show ?case
  proof (cases "same_key_ts x y")
    case True
    with 3 show ?thesis by simp
  next
    case False
    from "3.prems" have xy: "Row_less x y" using False Row_less_or_same by simp
    have "Row_less x z" if "z \<in> set (std_unique same_key_ts (y # ys))" for z
    proof -
      from that set_std_unique[of same_key_ts "y # ys"] have "z = y \<or> z \<in> set ys" by auto
      then show ?thesis
      proof
        assume "z = y" with xy show ?thesis by simp
      next
        assume "z \<in> set ys"
        with "3.prems" have "\<not> Row_less z y" by simp
        with xy show ?thesis by (rule Row_less_trans_le)
      qed
    qed
    with 3 False show ?thesis by simp
  qed
qed simp_all

lemma strict_distinct:
  "sorted_wrt Row_less xs \<Longrightarrow> distinct (map (\<lambda>r. (key r, timestamp r)) xs)"
  by (induction xs) (auto simp: Row_less_def)

lemma Row_le_iff:
  "(\<not> Row_less b a) = (key a < key b \<or> (key a = key b \<and> timestamp a \<le> timestamp b))"
  by (auto simp: Row_less_def)

subsection \<open>The example engine\<close>

lemma example_part_written:
  "write_from_memtable_rows (Part_new 9 None) 7 example_rows = Inr example_part"
  by (simp add: write_from_memtable_rows_def example_rows_def std_sort_def Row_less_def
      Granule_new_def is_full_def GRANULE_SIZE_def add_row_def update_key_range_def
      write_granules_def Granule_sort_def is_empty_def update_metadata_def build_index_def
      add_entry_def write_granule_def Part_new_def PartMetadata_new_def example_part_def Let_def)

lemma example_query:
  "MergeTree_query example_engine ''key1'' ''key2'' =
     Inr (example_engine,
       [\<lparr>key = ''key1'', val = ''v1'', timestamp = 1000\<rparr>,
        \<lparr>key = ''key2'', val = ''v2'', timestamp = 2000\<rparr>,
        \<lparr>key = ''key2'', val = ''w2'', timestamp = 2500\<rparr>])"
  by (simp add: MergeTree_query_def example_engine_def example_part_def Part_overlaps_range_def
      Part_query_def load_def overlaps_range_def query_range_def MemTable_query_def
      std_sort_def Row_less_def same_key_ts_def)

subsection \<open>C1, C2, C10: range queries of the engine\<close>

lemma MergeTree_query_rows:
  assumes "MergeTree_query st a b = Inr (st', R)"
  obtains ps' rs where "query_parts (parts st) a b = Inr (ps', rs)"
    and "R = std_unique same_key_ts (std_sort Row_less (MemTable_query (memtable st) a b @ rs))"
  using assms by (auto simp: MergeTree_query_def split: sum.splits)

lemma query_sorted_in_range_aux:
  assumes "MergeTree_query st a b = Inr (st', R)"
  shows "\<forall>r\<in>set R. a \<le> key r \<and> key r \<le> b"
proof -
  from assms obtain ps' rs where q: "query_parts (parts st) a b = Inr (ps', rs)"
    and R: "R = std_unique same_key_ts (std_sort Row_less (MemTable_query (memtable st) a b @ rs))"
    by (rule MergeTree_query_rows)
  have "set R \<subseteq> set (MemTable_query (memtable st) a b) \<union> set rs"
    unfolding R using set_std_unique[of same_key_ts] by (fastforce simp: set_std_sort)
  moreover have "\<forall>r\<in>set (MemTable_query (memtable st) a b). a \<le> key r \<and> key r \<le> b"
    by (auto simp: MemTable_query_def dest: scan_range_set)
  moreover note query_parts_set[OF q]
  ultimately show ?thesis by blast
qed

text \<open>
  C1. Whenever \<open>MergeTree::query(a, b)\<close> returns a row list, the list is sorted by
  \<open>(key, timestamp)\<close> ascending and every row \<open>r\<close> of it satisfies \<open>a \<le> r.key \<le> b\<close>.
\<close>

theorem query_sorted_in_range:
  assumes "MergeTree_query st a b = Inr (st', R)"
  shows "sorted_wrt (\<lambda>x y. key x < key y \<or> (key x = key y \<and> timestamp x \<le> timestamp y)) R
         \<and> (\<forall>r\<in>set R. a \<le> key r \<and> key r \<le> b)"
proof -
  from assms obtain ps' rs where "query_parts (parts st) a b = Inr (ps', rs)"
    and R: "R = std_unique same_key_ts (std_sort Row_less (MemTable_query (memtable st) a b @ rs))"
    by (rule MergeTree_query_rows)
  have "sorted_wrt (\<lambda>x y. \<not> Row_less y x) R"
    unfolding R by (rule sorted_wrt_std_unique) (rule sorted_std_sort)
  then have "sorted_wrt (\<lambda>x y. key x < key y \<or> (key x = key y \<and> timestamp x \<le> timestamp y)) R"
    by (simp add: Row_le_iff)
  with query_sorted_in_range_aux[OF assms] show ?thesis by simp
qed

theorem query_sorted_in_range_witness:
  "\<exists>st' R. MergeTree_query example_engine ''key1'' ''key2'' = Inr (st', R)
     \<and> length R = 3
     \<and> sorted_wrt (\<lambda>x y. key x < key y \<or> (key x = key y \<and> timestamp x \<le> timestamp y)) R
     \<and> list_all (\<lambda>r. ''key1'' \<le> key r \<and> key r \<le> ''key2'') R"
  using query_sorted_in_range[OF example_query] example_query
  by (simp add: list_all_iff)

text \<open>
  C2. Whenever \<open>MergeTree::query(a, b)\<close> returns a row list, no two distinct positions of the
  list hold rows with equal key and equal timestamp: the \<open>(key, timestamp)\<close> pairs of the
  list are pairwise distinct. The list is the sorted concatenation of the memtable's and
  the parts' results with every run of equal \<open>(key, timestamp)\<close> cut down to its first row.
\<close>

theorem query_no_duplicates:
  assumes "MergeTree_query st a b = Inr (st', R)"
  shows "distinct (map (\<lambda>r. (key r, timestamp r)) R)
         \<and> (\<forall>i j. i < j \<and> j < length R \<longrightarrow>
               \<not> (key (R ! i) = key (R ! j) \<and> timestamp (R ! i) = timestamp (R ! j)))
         \<and> (\<exists>ps' rs. query_parts (parts st) a b = Inr (ps', rs)
               \<and> R = std_unique same_key_ts
                     (std_sort Row_less (MemTable_query (memtable st) a b @ rs)))"
proof -
  from assms obtain ps' rs where q: "query_parts (parts st) a b = Inr (ps', rs)"
    and R: "R = std_unique same_key_ts (std_sort Row_less (MemTable_query (memtable st) a b @ rs))"
    by (rule MergeTree_query_rows)
  have "sorted_wrt Row_less R"
    unfolding R by (rule strict_std_unique) (rule sorted_std_sort)
  then have d: "distinct (map (\<lambda>r. (key r, timestamp r)) R)" by (rule strict_distinct)
  have "\<not> (key (R ! i) = key (R ! j) \<and> timestamp (R ! i) = timestamp (R ! j))"
    if "i < j" "j < length R" for i j
  proof
    assume eq: "key (R ! i) = key (R ! j) \<and> timestamp (R ! i) = timestamp (R ! j)"
    from that have "i < length (map (\<lambda>r. (key r, timestamp r)) R)"
      "j < length (map (\<lambda>r. (key r, timestamp r)) R)" "i \<noteq> j" by simp_all
    with d have "map (\<lambda>r. (key r, timestamp r)) R ! i \<noteq> map (\<lambda>r. (key r, timestamp r)) R ! j"
      unfolding distinct_conv_nth by blast
    with that eq show False by simp
  qed
  with d q R show ?thesis by blast
qed

theorem query_no_duplicates_witness:
  "\<exists>st' R. MergeTree_query example_engine ''key1'' ''key2'' = Inr (st', R)
     \<and> length R = 3 \<and> distinct (map (\<lambda>r. (key r, timestamp r)) R)"
  using query_no_duplicates[OF example_query] example_query
  by simp

lemma scan_range_inverted: "e < s \<Longrightarrow> scan_range s e rs = []"
  by (induction rs) auto

lemma query_granules_sorted_flags:
  "list_all sorted_flag gs \<Longrightarrow> \<exists>rs. query_granules gs is s e = Inr rs"
proof (induction "is")
  case Nil
  then show ?case by simp
next
  case (Cons i "is")
  then obtain rest where rest: "query_granules gs is s e = Inr rest" by blast
  show ?case
  proof (cases "unat i < length gs")
    case True
    with Cons.prems have "sorted_flag (gs ! unat i)" by (simp add: list_all_length)
    with True rest show ?thesis by (simp add: query_range_def)
  next
    case False
    with rest show ?thesis by simp
  qed
qed

lemma Part_query_ready:
  assumes "part_ready p"
  shows "\<exists>rs. Part_query p s e = Inr (p, rs)"
proof -
  from assms have l: "load p = Inr p" by (simp add: part_ready_def load_def)
  from assms have "list_all sorted_flag (granules p)" by (simp add: part_ready_def)
  from query_granules_sorted_flags[OF this] obtain rs where
    "query_granules (granules p) (find_granules (index p) s e) s e = Inr rs"
    by blast
  with l show ?thesis by (simp add: Part_query_def)
qed

lemma query_parts_ready:
  "list_all part_ready ps \<Longrightarrow> \<exists>rs. query_parts ps s e = Inr (ps, rs)"
proof (induction ps)
  case Nil
  then show ?case by simp
next
  case (Cons p ps)
  then obtain rest where rest: "query_parts ps s e = Inr (ps, rest)" by auto
  from Cons.prems obtain rs where "Part_query p s e = Inr (p, rs)"
    using Part_query_ready[of p] by auto
  with rest show ?case by simp
qed

text \<open>On an engine whose parts are all resident with sorted granules the query returns.\<close>

lemma MergeTree_query_returns:
  assumes "list_all part_ready (parts st)"
  shows "\<exists>R. MergeTree_query st a b = Inr (st, R)"
proof -
  from query_parts_ready[OF assms] obtain rs where
    "query_parts (parts st) a b = Inr (parts st, rs)" by blast
  then show ?thesis by (simp add: MergeTree_query_def)
qed

lemma part_fresh_inverted: "part_fresh p \<Longrightarrow> e < s \<Longrightarrow> \<not> Part_overlaps_range p s e"
  by (cases s) (auto simp: part_fresh_def Part_overlaps_range_def)

lemma query_parts_inverted:
  "list_all part_ok ps \<Longrightarrow> e < s \<Longrightarrow> query_parts ps s e = Inr (ps, [])"
proof (induction ps)
  case Nil
  then show ?case by simp
next
  case (Cons p ps)
  then have rest: "query_parts ps s e = Inr (ps, [])" by simp
  show ?case
  proof (cases "Part_overlaps_range p s e")
    case True
    with Cons.prems have "part_ready p"
      using part_fresh_inverted[of p e s] by (auto simp: part_ok_def)
    then obtain rs where q: "Part_query p s e = Inr (p, rs)"
      using Part_query_ready by blast
    from Part_query_set[OF q] \<open>e < s\<close> have "rs = []"
      by (cases rs) auto
    with q rest True show ?thesis by simp
  next
    case False
    with rest show ?thesis by simp
  qed
qed

text \<open>
  The parts the engine holds: a part that \<open>write_granules\<close> wrote or \<open>load\<close> read is
  resident with every granule flagged sorted, and a part that recovery constructs is
  fresh.
\<close>

lemma sorted_flag_Granule_sort: "sorted_flag (Granule_sort g)"
  by (simp add: Granule_sort_def update_key_range_def split: list.splits)

lemma write_granules_ready: "write_granules p now gs = Inr p' \<Longrightarrow> part_ready p'"
  by (auto simp: write_granules_def part_ready_def Let_def list_all_iff sorted_flag_Granule_sort
      split: if_splits)

lemma write_from_memtable_rows_ready:
  "write_from_memtable_rows p now rs = Inr p' \<Longrightarrow> part_ready p'"
  by (auto simp: write_from_memtable_rows_def split: if_splits sum.splits
      dest: write_granules_ready)

lemma read_granules_sorted_flags:
  "read_granules d is = Inr gs \<Longrightarrow> list_all sorted_flag gs"
proof (induction "is" arbitrary: gs)
  case Nil
  then show ?case by simp
next
  case (Cons i "is")
  then obtain g gs' where g: "read_granule d i = Inr g" "read_granules d is = Inr gs'" "gs = g # gs'"
    by (auto split: sum.splits)
  from g(1) have "sorted_flag g"
    by (auto simp: read_granule_def Let_def sorted_flag_Granule_sort split: if_splits sum.splits)
  with Cons.IH[OF g(2)] g(3) show ?case by simp
qed

lemma load_ready: "\<not> loaded p \<Longrightarrow> load p = Inr p' \<Longrightarrow> part_ready p'"
  by (auto simp: load_def part_ready_def split: option.splits sum.splits
      dest: read_granules_sorted_flags)

lemma Part_new_fresh: "part_fresh (Part_new i d)"
  by (simp add: part_fresh_def Part_new_def PartMetadata_new_def)

text \<open>
  C10. For \<open>start_key > end_key\<close>, every row list that \<open>MergeTree::query\<close> returns is empty;
  and on an engine whose parts are resident with sorted granules, or fresh from recovery,
  the query does return, with the empty list and the engine unchanged.
\<close>

theorem query_inverted_range_empty:
  assumes "end_key < start_key"
  shows "(\<forall>st' R. MergeTree_query st start_key end_key = Inr (st', R) \<longrightarrow> R = [])
         \<and> (list_all part_ok (parts st) \<longrightarrow> MergeTree_query st start_key end_key = Inr (st, []))"
proof -
  have "R = []" if "MergeTree_query st start_key end_key = Inr (st', R)" for st' R
  proof -
    from query_sorted_in_range_aux[OF that] assms show ?thesis by (cases R) auto
  qed
  moreover have "MergeTree_query st start_key end_key = Inr (st, [])"
    if "list_all part_ok (parts st)"
    using query_parts_inverted[OF that assms] assms
    by (simp add: MergeTree_query_def MemTable_query_def scan_range_inverted std_sort_def)
  ultimately show ?thesis by blast
qed

theorem query_inverted_range_empty_witness:
  "''key1'' < ''key3'' \<and> Part_overlaps_range example_part ''key3'' ''key1''
   \<and> list_all part_ok (parts example_engine)
   \<and> MergeTree_query example_engine ''key3'' ''key1'' = Inr (example_engine, [])"
proof -
  have "part_ready example_part"
    using example_part_written by (rule write_from_memtable_rows_ready)
  then have ok: "list_all part_ok (parts example_engine)"
    by (simp add: example_engine_def part_ok_def)
  have lt: "''key1'' < ''key3''" by simp
  have ov: "Part_overlaps_range example_part ''key3'' ''key1''"
    by (simp add: Part_overlaps_range_def example_part_def)
  from query_inverted_range_empty[OF lt, of example_engine] ok lt ov show ?thesis by simp
qed

subsection \<open>C3, C6, C9: the merger\<close>

lemmas write_defs = written_part_def write_from_memtable_rows_def std_sort_def Row_less_def
      Granule_new_def is_full_def GRANULE_SIZE_def add_row_def update_key_range_def
      write_granules_def Granule_sort_def is_empty_def update_metadata_def build_index_def
      add_entry_def write_granule_def Part_new_def PartMetadata_new_def Let_def

lemma part_a_rows: "get_all_rows part_a = Inr (part_a, [\<lparr>key = ''k'', val = ''a1'', timestamp = 1\<rparr>,
                            \<lparr>key = ''k'', val = ''a3'', timestamp = 3\<rparr>])"
  by (simp add: part_a_def get_all_rows_def load_def write_defs)

lemma part_b_rows: "get_all_rows part_b = Inr (part_b, [\<lparr>key = ''k'', val = ''b2'', timestamp = 2\<rparr>,
                            \<lparr>key = ''k'', val = ''b3'', timestamp = 3\<rparr>])"
  by (simp add: part_b_def get_all_rows_def load_def write_defs)

lemma part_c_rows:
  "get_all_rows part_c = Inr (part_c, [\<lparr>key = ''k'', val = ''c1'', timestamp = 1\<rparr>,
                                        \<lparr>key = ''k'', val = ''c2'', timestamp = 2\<rparr>])"
  by (simp add: part_c_def get_all_rows_def load_def write_defs)

lemma part_e_rows:
  "get_all_rows part_e = Inr (part_e, [\<lparr>key = ''m'', val = ''e5'', timestamp = 5\<rparr>])"
  by (simp add: part_e_def get_all_rows_def load_def write_defs)

lemma greater_trans:
  "RowWithSource_greater a b \<Longrightarrow> RowWithSource_greater b c \<Longrightarrow> RowWithSource_greater a c"
  by (auto simp: RowWithSource_greater_def)

lemma greater_ntrans:
  "\<not> RowWithSource_greater a b \<Longrightarrow> \<not> RowWithSource_greater b c \<Longrightarrow> \<not> RowWithSource_greater a c"
  by (auto simp: RowWithSource_greater_def)

lemma greater_irrefl: "\<not> RowWithSource_greater a a"
  by (simp add: RowWithSource_greater_def)

lemma heap_top_from_min:
  "y \<in> set (t # xs) \<Longrightarrow> \<not> RowWithSource_greater (heap_top_from t xs) y"
proof (induction xs arbitrary: t y)
  case Nil
  then show ?case by (simp add: greater_irrefl)
next
  case (Cons x xs)
  let ?t = "if RowWithSource_greater t x then x else t"
  let ?m = "heap_top_from ?t xs"
  have IH: "\<not> RowWithSource_greater ?m z" if "z \<in> set (?t # xs)" for z
    using that by (rule Cons.IH)
  have mt: "\<not> RowWithSource_greater ?m ?t" using IH by simp
  have "\<not> RowWithSource_greater ?m t"
    using mt greater_trans[of ?m t x] by (auto split: if_splits)
  moreover have "\<not> RowWithSource_greater ?m x"
    using mt greater_ntrans[of ?m t x] by (auto split: if_splits)
  moreover have "\<not> RowWithSource_greater ?m z" if "z \<in> set xs" for z
    using IH that by simp
  ultimately show ?case using Cons.prems by auto
qed

lemma heap_top_min:
  "y \<in> set (x # xs) \<Longrightarrow> \<not> RowWithSource_greater (heap_top tie (x # xs)) y"
  using heap_top_from_min[of y x xs] by (auto simp: heap_top_def list_all_iff)

text \<open>When one cursor is below all others, every choice returns it.\<close>

lemma heap_top_no_tie:
  assumes "list_all (\<lambda>y. y = heap_top_from x xs \<or> RowWithSource_greater y (heap_top_from x xs))
             (x # xs)"
  shows "heap_top tie (x # xs) = heap_top_from x xs"
proof -
  let ?m = "heap_top tie (x # xs)"
  have "?m \<in> set (x # xs)" by (rule heap_top_mem)
  with assms have "?m = heap_top_from x xs \<or> RowWithSource_greater ?m (heap_top_from x xs)"
    unfolding list_all_iff by blast
  moreover have "\<not> RowWithSource_greater ?m (heap_top_from x xs)"
    using heap_top_from_mem[of x xs] by (rule heap_top_min)
  ultimately show ?thesis by blast
qed

lemmas merge_defs = merge_rows_def MergeIterator_new_def merge_loop.simps has_next_def
  MergeIterator_next_def advance_part_def RowWithSource_greater_def Let_def heap_top_no_tie

text \<open>
  C3 (fails on the code). Two parts hold the rows \<open>(k, 1), (k, 3)\<close> and \<open>(k, 2), (k, 3)\<close>. The
  heap pops the larger timestamp of a key first while each part offers its rows with
  timestamps ascending, so the two rows \<open>(k, 3)\<close> are not popped one after the other and
  the comparison with the last merged row keeps both: the output holds the pair \<open>(k, 3)\<close>
  twice. No two cursors of this run are equivalent, so the result is the same for every
  \<open>tie\<close>.
\<close>

theorem merge_rows_keeps_duplicate:
  "merge_rows tie [part_a, part_b] =
     Inr [\<lparr>key = ''k'', val = ''b2'', timestamp = 2\<rparr>,
          \<lparr>key = ''k'', val = ''b3'', timestamp = 3\<rparr>,
          \<lparr>key = ''k'', val = ''a1'', timestamp = 1\<rparr>,
          \<lparr>key = ''k'', val = ''a3'', timestamp = 3\<rparr>]
   \<and> \<not> distinct (map (\<lambda>r. (key r, timestamp r))
          [\<lparr>key = ''k'', val = ''b2'', timestamp = 2\<rparr>,
           \<lparr>key = ''k'', val = ''b3'', timestamp = 3\<rparr>,
           \<lparr>key = ''k'', val = ''a1'', timestamp = 1\<rparr>,
           \<lparr>key = ''k'', val = ''a3'', timestamp = 3\<rparr>])"
  by (simp add: merge_defs part_a_rows part_b_rows)

text \<open>
  C6. \<open>merge_parts\<close> on a list of exactly one part returns that part as it is, and on the
  empty list it fails with \<open>EmptyInput\<close>.
\<close>

theorem merge_parts_single_and_empty:
  "merge_parts tie next_id now [p] = Inr p
   \<and> merge_parts tie next_id now [] = Inl EmptyInput"
  by (simp add: merge_parts_def)

lemma heap_top_key_le:
  "y \<in> set (x # xs) \<Longrightarrow> key (row (heap_top tie (x # xs))) \<le> key (row y)"
  using heap_top_min[of y x xs tie] by (auto simp: RowWithSource_greater_def)

lemma sorted_key_nth:
  "sorted (map key rs) \<Longrightarrow> i \<le> j \<Longrightarrow> j < length rs \<Longrightarrow> key (rs ! i) \<le> key (rs ! j)"
  using sorted_nth_mono[of "map key rs" i j] by simp

lemma MergeIterator_next_step:
  assumes ok: "cursors_ok it" and ne: "heap it \<noteq> []"
  shows "\<exists>r it'. MergeIterator_next tie it = Inr (r, it') \<and> cursors_ok it'
           \<and> (\<forall>y\<in>set (heap it). key r \<le> key (row y))
           \<and> (\<forall>y\<in>set (heap it'). key r \<le> key (row y))"
proof -
  from ne obtain x xs where h: "heap it = x # xs" by (cases "heap it") auto
  define cur where "cur = heap_top tie (x # xs)"
  define i where "i = part_index cur"
  define c where "c = Suc (current_indices it ! i)"
  define it1 where "it1 = it\<lparr>heap := remove1 cur (heap it)\<rparr>"
  define it2 where "it2 = it1\<lparr>current_indices := (current_indices it1)[i := c]\<rparr>"
  have cur_in: "cur \<in> set (heap it)"
    using heap_top_mem[of tie x xs] h by (simp add: cur_def)
  have len: "length (current_indices it) = length (part_rows it)"
    and srt: "list_all (\<lambda>rs. sorted (map key rs)) (part_rows it)"
    and dist: "distinct (map part_index (heap it))"
    and cok: "\<And>y. y \<in> set (heap it) \<Longrightarrow> cursor_ok it y"
    using ok by (auto simp: cursors_ok_def list_all_iff)
  from cok[OF cur_in] have i_lt: "i < length (part_rows it)"
    and c_lt: "current_indices it ! i < length (part_rows it ! i)"
    and row_cur: "row cur = part_rows it ! i ! (current_indices it ! i)"
    by (auto simp: cursor_ok_def i_def)
  have min: "key (row cur) \<le> key (row y)" if "y \<in> set (heap it)" for y
    using heap_top_key_le[of y x xs tie] that h by (simp add: cur_def)
  have srt_i: "sorted (map key (part_rows it ! i))"
    using srt i_lt by (simp add: list_all_length)
  from dist have dh: "distinct (heap it)" by (simp add: distinct_map)
  have rest_set: "set (remove1 cur (heap it)) = set (heap it) - {cur}"
    using dh by (rule set_remove1_eq)
  have rest_in: "y \<in> set (heap it)" if "y \<in> set (remove1 cur (heap it))" for y
    using that rest_set by simp
  have rest_ne: "part_index y \<noteq> i" if "y \<in> set (remove1 cur (heap it))" for y
  proof
    assume eq: "part_index y = i"
    from dist have inj: "inj_on part_index (set (heap it))" by (simp add: distinct_map)
    from that rest_set have yin: "y \<in> set (heap it)" and "y \<noteq> cur" by simp_all
    moreover from inj yin cur_in eq have "y = cur" by (auto simp: inj_on_def i_def)
    ultimately show False by simp
  qed
  have rest_ok: "cursor_ok it2 y" if "y \<in> set (remove1 cur (heap it))" for y
    using cok[OF rest_in[OF that]] rest_ne[OF that]
    by (simp add: cursor_ok_def it2_def it1_def)
  have rest_dist: "distinct (map part_index (remove1 cur (heap it)))"
    using dist rest_set by (auto simp: distinct_map inj_on_def)
  have adv: "advance_part it1 i =
      (if c < length (part_rows it ! i)
       then Inr (it2\<lparr>heap := heap it2 @ [\<lparr>row = part_rows it ! i ! c, part_index = i, row_index = c\<rparr>]\<rparr>)
       else Inr it2)"
    using i_lt len by (simp add: advance_part_def it1_def it2_def c_def Let_def)
  have nxt: "MergeIterator_next tie it =
      (if c < length (part_rows it ! i)
       then Inr (row cur, it2\<lparr>heap := heap it2 @ [\<lparr>row = part_rows it ! i ! c, part_index = i, row_index = c\<rparr>]\<rparr>)
       else Inr (row cur, it2))"
  proof -
    have "MergeIterator_next tie it =
        (case advance_part it1 i of Inl err \<Rightarrow> Inl err | Inr it' \<Rightarrow> Inr (row cur, it'))"
      unfolding cur_def i_def it1_def
      by (simp add: MergeIterator_next_def h Let_def del: remove1.simps)
    with adv show ?thesis by simp
  qed
  have base: "length (current_indices it2) = length (part_rows it2)"
    "list_all (\<lambda>rs. sorted (map key rs)) (part_rows it2)"
    "heap it2 = remove1 cur (heap it)" "part_rows it2 = part_rows it"
    using len srt by (simp_all add: it2_def it1_def)
  show ?thesis
  proof (cases "c < length (part_rows it ! i)")
    case True
    let ?new = "\<lparr>row = part_rows it ! i ! c, part_index = i, row_index = c\<rparr>"
    let ?it' = "it2\<lparr>heap := heap it2 @ [?new]\<rparr>"
    have new_ok: "cursor_ok ?it' ?new"
      using True i_lt len by (simp add: cursor_ok_def it2_def it1_def)
    have old_ok: "cursor_ok ?it' y" if "y \<in> set (remove1 cur (heap it))" for y
      using rest_ok[OF that] by (simp add: cursor_ok_def)
    have "cursors_ok ?it'"
      using base new_ok old_ok rest_dist rest_ne
      by (auto simp: cursors_ok_def list_all_iff)
    moreover have "key (row cur) \<le> key (part_rows it ! i ! c)"
      unfolding row_cur using sorted_key_nth[OF srt_i _ True] by (simp add: c_def)
    ultimately show ?thesis
      using nxt True min rest_in base by auto
  next
    case False
    have "cursors_ok it2"
      using base rest_ok rest_dist by (auto simp: cursors_ok_def list_all_iff)
    then show ?thesis
      using nxt False min rest_in base by auto
  qed
qed

lemma MergeIterator_next_top:
  assumes "MergeIterator_next tie it = Inr (r, it')"
  shows "r \<in> row ` set (heap it)"
proof -
  from assms obtain x xs where h: "heap it = x # xs"
    by (auto simp: MergeIterator_next_def split: list.splits)
  from assms h have "r = row (heap_top tie (x # xs))"
    by (auto simp: MergeIterator_next_def Let_def split: sum.splits)
  with heap_top_mem[of tie x xs] h show ?thesis by auto
qed

lemma merge_loop_keys_ascending:
  assumes "cursors_ok it" "sorted (map key acc)"
    "\<forall>a\<in>set acc. \<forall>y\<in>set (heap it). key a \<le> key (row y)"
  shows "\<exists>out. merge_loop tie it acc = Inr out \<and> sorted (map key out)"
  using assms
proof (induction tie it acc rule: merge_loop.induct)
  case (1 tie it acc)
  show ?case
  proof (cases "has_next it")
    case False
    with 1 show ?thesis by (simp add: merge_loop.simps[of tie it acc])
  next
    case True
    then have ne: "heap it \<noteq> []" by (simp add: has_next_def)
    from MergeIterator_next_step[OF "1.prems"(1) ne, of tie] obtain r it' where
      nxt: "MergeIterator_next tie it = Inr (r, it')" and ok': "cursors_ok it'"
      and lo: "\<forall>y\<in>set (heap it). key r \<le> key (row y)"
      and hi: "\<forall>y\<in>set (heap it'). key r \<le> key (row y)"
      by blast
    from MergeIterator_next_top[OF nxt] have r_in: "r \<in> row ` set (heap it)" .
    define acc' where "acc' =
      (if acc = [] \<or> key (last acc) \<noteq> key r \<or> timestamp (last acc) \<noteq> timestamp r
       then acc @ [r] else acc)"
    have le_r: "key a \<le> key r" if "a \<in> set acc" for a
      using "1.prems"(3) that r_in by auto
    have s': "sorted (map key acc')"
      using "1.prems"(2) le_r by (auto simp: acc'_def sorted_append)
    have b': "\<forall>a\<in>set acc'. \<forall>y\<in>set (heap it'). key a \<le> key (row y)"
      using le_r hi by (fastforce simp: acc'_def split: if_splits)
    from "1.IH"[OF True nxt refl, folded acc'_def, OF ok' s' b']
    obtain out where "merge_loop tie it' acc' = Inr out" "sorted (map key out)" by blast
    with True nxt show ?thesis
      by (simp add: merge_loop.simps[of tie it acc] acc'_def)
  qed
qed

lemma initialize_heap_cursors:
  assumes "\<forall>x\<in>set h. part_index x < length pre
             \<and> (pre @ rss) ! part_index x \<noteq> [] \<and> row x = (pre @ rss) ! part_index x ! 0"
    and "distinct (map part_index h)"
  shows "distinct (map part_index (initialize_heap (length pre) rss h))
         \<and> (\<forall>x\<in>set (initialize_heap (length pre) rss h).
               part_index x < length (pre @ rss)
               \<and> (pre @ rss) ! part_index x \<noteq> [] \<and> row x = (pre @ rss) ! part_index x ! 0)"
  using assms
proof (induction rss arbitrary: pre h)
  case Nil
  then show ?case by auto
next
  case (Cons rs rest)
  define h' where "h' = (case rs of [] \<Rightarrow> h | r # _ \<Rightarrow> h @ [\<lparr>row = r, part_index = length pre, row_index = 0\<rparr>])"
  have eq: "(pre @ [rs]) @ rest = pre @ rs # rest" by simp
  have a1: "\<forall>x\<in>set h'. part_index x < length (pre @ [rs])
             \<and> ((pre @ [rs]) @ rest) ! part_index x \<noteq> []
             \<and> row x = ((pre @ [rs]) @ rest) ! part_index x ! 0"
    unfolding eq using Cons.prems(1)
    by (cases rs) (auto simp: h'_def nth_append less_Suc_eq)
  have a2: "distinct (map part_index h')"
    using Cons.prems by (cases rs) (auto simp: h'_def)
  from Cons.IH[of h' "pre @ [rs]", OF a1 a2] show ?case
    unfolding eq by (simp add: h'_def)
qed

lemma all_part_rows_sorted:
  "list_all part_key_sorted ps \<Longrightarrow>
     \<exists>rss. all_part_rows ps = Inr rss \<and> length rss = length ps
       \<and> list_all (\<lambda>rs. sorted (map key rs)) rss"
proof (induction ps)
  case Nil
  then show ?case by simp
next
  case (Cons p ps)
  then obtain rss where "all_part_rows ps = Inr rss" "length rss = length ps"
    "list_all (\<lambda>rs. sorted (map key rs)) rss" by auto
  moreover from Cons.prems obtain p' rs where "get_all_rows p = Inr (p', rs)" "sorted (map key rs)"
    by (auto simp: part_key_sorted_def split: sum.splits)
  ultimately show ?case by simp
qed

lemma MergeIterator_new_ok:
  assumes "list_all part_key_sorted ps"
  shows "\<exists>it. MergeIterator_new ps = Inr it \<and> cursors_ok it"
proof -
  from all_part_rows_sorted[OF assms] obtain rss where
    rss: "all_part_rows ps = Inr rss" "length rss = length ps"
    "list_all (\<lambda>rs. sorted (map key rs)) rss" by blast
  define it where "it = \<lparr>part_rows = rss, current_indices = replicate (length ps) 0,
               heap = initialize_heap 0 rss []\<rparr>"
  from initialize_heap_cursors[of "[]" "[]" rss]
  have d: "distinct (map part_index (heap it))"
    and c: "\<forall>x\<in>set (heap it). part_index x < length rss \<and> rss ! part_index x \<noteq> []
              \<and> row x = rss ! part_index x ! 0"
    by (simp_all add: it_def)
  have "cursor_ok it x" if "x \<in> set (heap it)" for x
    using c that rss(2) by (auto simp: cursor_ok_def it_def)
  with d rss have "cursors_ok it"
    by (simp add: cursors_ok_def list_all_iff it_def)
  moreover have "MergeIterator_new ps = Inr it"
    using rss by (simp add: MergeIterator_new_def it_def)
  ultimately show ?thesis by blast
qed

text \<open>
  Every part that \<^verbatim>\<open>write_from_memtable_rows\<close> writes holds the sorted rows, so its keys
  are ascending across its granules.
\<close>

lemma std_sort_sorted_id:
  "sorted_wrt (\<lambda>a b. \<not> lt b a) xs \<Longrightarrow> std_sort lt xs = xs"
proof (induction xs)
  case Nil
  then show ?case by (simp add: std_sort_def)
next
  case (Cons x xs)
  then have "std_sort lt xs = xs" by simp
  moreover have "insert_by lt x xs = x # xs"
    using Cons.prems by (cases xs) auto
  ultimately show ?case by (simp add: std_sort_def)
qed

lemma rows_update_key_range: "rows (update_key_range g) = rows g"
  by (simp add: update_key_range_def split: list.splits)

lemma rows_Granule_sort_sorted:
  "sorted_wrt (\<lambda>a b. \<not> Row_less b a) (rows g) \<Longrightarrow> rows (Granule_sort g) = rows g"
  by (simp add: Granule_sort_def rows_update_key_range std_sort_sorted_id)

lemma rows_add_row: "add_row g r = Inr g' \<Longrightarrow> rows g' = rows g @ [r]"
  by (auto simp: add_row_def rows_update_key_range split: if_splits)

lemma pack_rows_concat:
  assumes "pack_rows gs cur rs = Inr (gs', cur')"
    and "sorted_wrt (\<lambda>a b. \<not> Row_less b a) (rows cur @ rs)"
  shows "concat (map rows gs') @ rows cur' = concat (map rows gs) @ rows cur @ rs"
  using assms
proof (induction rs arbitrary: gs cur)
  case Nil
  then show ?case by simp
next
  case (Cons r rs)
  show ?case
  proof (cases "is_full cur")
    case True
    with Cons.prems(1) obtain c1 where c1: "add_row Granule_new r = Inr c1"
      and p: "pack_rows (gs @ [Granule_sort cur]) c1 rs = Inr (gs', cur')"
      by (auto split: sum.splits)
    from rows_add_row[OF c1] have r1: "rows c1 = [r]" by (simp add: Granule_new_def)
    from Cons.prems(2) have "sorted_wrt (\<lambda>a b. \<not> Row_less b a) (rows c1 @ rs)"
      by (simp add: r1 sorted_wrt_append)
    from Cons.IH[OF p this] have
      "concat (map rows gs') @ rows cur' = concat (map rows (gs @ [Granule_sort cur])) @ rows c1 @ rs" .
    moreover from Cons.prems(2) have "rows (Granule_sort cur) = rows cur"
      by (intro rows_Granule_sort_sorted) (simp add: sorted_wrt_append)
    ultimately show ?thesis by (simp add: r1)
  next
    case False
    with Cons.prems(1) obtain c1 where c1: "add_row cur r = Inr c1"
      and p: "pack_rows gs c1 rs = Inr (gs', cur')"
      by (auto split: sum.splits)
    from rows_add_row[OF c1] have r1: "rows c1 = rows cur @ [r]" .
    from Cons.prems(2) have "sorted_wrt (\<lambda>a b. \<not> Row_less b a) (rows c1 @ rs)"
      by (simp add: r1)
    from Cons.IH[OF p this] show ?thesis by (simp add: r1)
  qed
qed

lemma concat_rows_Granule_sort:
  "sorted_wrt (\<lambda>a b. \<not> Row_less b a) (concat (map rows gs)) \<Longrightarrow>
     concat (map rows (map Granule_sort gs)) = concat (map rows gs)"
proof (induction gs)
  case Nil
  then show ?case by simp
next
  case (Cons g gs)
  then show ?case
    by (simp add: sorted_wrt_append rows_Granule_sort_sorted)
qed

lemma write_from_memtable_rows_rows:
  assumes "write_from_memtable_rows p now rs = Inr p'"
  shows "loaded p' \<and> concat (map rows (granules p')) = std_sort Row_less rs"
proof -
  from assms obtain gs cur where
    pk: "pack_rows [] Granule_new (std_sort Row_less rs) = Inr (gs, cur)"
    and w: "write_granules p now (if \<not> is_empty cur then gs @ [Granule_sort cur] else gs) = Inr p'"
    by (auto simp: write_from_memtable_rows_def split: if_splits sum.splits)
  have s: "sorted_wrt (\<lambda>a b. \<not> Row_less b a) (std_sort Row_less rs)" by (rule sorted_std_sort)
  from pack_rows_concat[OF pk] s
  have c: "concat (map rows gs) @ rows cur = std_sort Row_less rs"
    by (simp add: Granule_new_def)
  let ?gs = "if \<not> is_empty cur then gs @ [Granule_sort cur] else gs"
  from c s have "rows (Granule_sort cur) = rows cur"
    by (intro rows_Granule_sort_sorted) (simp add: sorted_wrt_append[of _ "concat (map rows gs)" "rows cur", simplified c])
  with c have c2: "concat (map rows ?gs) = std_sort Row_less rs"
    by (auto simp: is_empty_def)
  with s have "concat (map rows (map Granule_sort ?gs)) = std_sort Row_less rs"
    using concat_rows_Granule_sort[of ?gs] by simp
  with w show ?thesis
    by (auto simp: write_granules_def Let_def split: if_splits)
qed

lemma Row_sorted_keys:
  "sorted_wrt (\<lambda>a b. \<not> Row_less b a) xs \<Longrightarrow> sorted (map key xs)"
proof (induction xs)
  case Nil
  then show ?case by simp
next
  case (Cons x xs)
  then show ?case by (auto simp: Row_less_def split: if_splits)
qed

lemma written_part_key_sorted:
  assumes "write_from_memtable_rows p now rs = Inr p'"
  shows "part_key_sorted p'"
proof -
  from write_from_memtable_rows_rows[OF assms] have l: "loaded p'"
    and c: "concat (map rows (granules p')) = std_sort Row_less rs" by simp_all
  from l have "get_all_rows p' = Inr (p', concat (map rows (granules p')))"
    by (simp add: get_all_rows_def load_def)
  with c sorted_std_sort[of rs] show ?thesis
    by (simp add: part_key_sorted_def Row_sorted_keys)
qed

text \<open>
  C9 as stated fails: two parts with the rows \<open>(k, 1), (k, 2)\<close> and \<open>(m, 5)\<close>, each in one
  sorted granule, are merged to \<open>(k, 1), (k, 2), (m, 5)\<close>, whatever the heap does with
  equivalent cursors. The two rows of key \<open>k\<close> come out with timestamps ascending, in the
  order their part holds them (\<^verbatim>\<open>Row::operator<\<close> sorts a part by ascending timestamp
  within a key, and a part offers its rows one after the other).
\<close>

theorem merge_rows_timestamps_not_descending:
  "list_all (\<lambda>g. sorted_wrt (\<lambda>a b. \<not> Row_less b a) (rows g)) (granules part_c)
   \<and> list_all (\<lambda>g. sorted_wrt (\<lambda>a b. \<not> Row_less b a) (rows g)) (granules part_e)
   \<and> (\<forall>tie. merge_rows tie [part_c, part_e] =
         Inr [\<lparr>key = ''k'', val = ''c1'', timestamp = 1\<rparr>,
              \<lparr>key = ''k'', val = ''c2'', timestamp = 2\<rparr>,
              \<lparr>key = ''m'', val = ''e5'', timestamp = 5\<rparr>])
   \<and> \<not> sorted_wrt (\<lambda>a b. key a < key b \<or> (key a = key b \<and> timestamp a > timestamp b))
         [\<lparr>key = ''k'', val = ''c1'', timestamp = 1\<rparr>,
          \<lparr>key = ''k'', val = ''c2'', timestamp = 2\<rparr>,
          \<lparr>key = ''m'', val = ''e5'', timestamp = 5\<rparr>]"
proof -
  have "list_all (\<lambda>g. sorted_wrt (\<lambda>a b. \<not> Row_less b a) (rows g)) (granules part_c)"
    "list_all (\<lambda>g. sorted_wrt (\<lambda>a b. \<not> Row_less b a) (rows g)) (granules part_e)"
    by (simp_all add: part_c_def part_e_def write_defs)
  moreover have "merge_rows tie [part_c, part_e] =
       Inr [\<lparr>key = ''k'', val = ''c1'', timestamp = 1\<rparr>,
            \<lparr>key = ''k'', val = ''c2'', timestamp = 2\<rparr>,
            \<lparr>key = ''m'', val = ''e5'', timestamp = 5\<rparr>]" for tie
    by (simp add: merge_defs part_c_rows part_e_rows)
  ultimately show ?thesis by simp
qed

text \<open>
  C9, amended. For every non-empty list of parts whose rows, granule after granule, can be
  read and have ascending keys (as in every part that \<^verbatim>\<open>write_from_memtable_rows\<close> wrote),
  and for every choice the heap makes among equivalent cursors, \<open>merge_rows\<close> returns a row
  sequence with ascending keys. The order of the timestamps within a key is not part of
  the statement, and neither is the number of rows of one (key, timestamp) pair, which is
  the subject of C3.
\<close>

theorem merge_rows_keys_ascending:
  assumes "ps \<noteq> []" and "list_all part_key_sorted ps"
  shows "\<exists>out. merge_rows tie ps = Inr out \<and> sorted (map key out)"
proof -
  from MergeIterator_new_ok[OF assms(2)] obtain it where
    it: "MergeIterator_new ps = Inr it" "cursors_ok it" by blast
  from merge_loop_keys_ascending[OF it(2), of "[]" tie] obtain out where
    "merge_loop tie it [] = Inr out" "sorted (map key out)" by auto
  with assms(1) it(1) show ?thesis
    by (auto simp: merge_rows_def)
qed

theorem merge_rows_keys_ascending_witness:
  "[part_b, part_e] \<noteq> [] \<and> list_all part_key_sorted [part_b, part_e]
   \<and> (\<forall>tie. merge_rows tie [part_b, part_e] =
          Inr [\<lparr>key = ''k'', val = ''b2'', timestamp = 2\<rparr>,
               \<lparr>key = ''k'', val = ''b3'', timestamp = 3\<rparr>,
               \<lparr>key = ''m'', val = ''e5'', timestamp = 5\<rparr>])
   \<and> (\<forall>tie. \<exists>out. merge_rows tie [part_b, part_e] = Inr out \<and> sorted (map key out))"
proof -
  have "write_from_memtable_rows (Part_new 2 None) 0
          [\<lparr>key = ''k'', val = ''b2'', timestamp = 2\<rparr>, \<lparr>key = ''k'', val = ''b3'', timestamp = 3\<rparr>]
        = Inr part_b"
    "write_from_memtable_rows (Part_new 4 None) 0 [\<lparr>key = ''m'', val = ''e5'', timestamp = 5\<rparr>]
        = Inr part_e"
    by (simp_all add: part_b_def part_e_def write_defs)
  then have "part_key_sorted part_b" "part_key_sorted part_e"
    by (simp_all only: written_part_key_sorted)
  then have ks: "list_all part_key_sorted [part_b, part_e]" by simp
  have ne: "[part_b, part_e] \<noteq> []" by simp
  have "merge_rows tie [part_b, part_e] =
     Inr [\<lparr>key = ''k'', val = ''b2'', timestamp = 2\<rparr>,
          \<lparr>key = ''k'', val = ''b3'', timestamp = 3\<rparr>,
          \<lparr>key = ''m'', val = ''e5'', timestamp = 5\<rparr>]" for tie
    by (simp add: merge_defs part_b_rows part_e_rows)
  with merge_rows_keys_ascending[OF ne ks] ks show ?thesis by auto
qed

subsection \<open>C4, C5: candidate selection\<close>

lemma collect_candidates_take:
  fixes calc :: "nat list \<Rightarrow> Part list \<Rightarrow> 's::{linorder,zero}"
  assumes "\<forall>idxs\<in>set idxss. \<forall>i\<in>set idxs. i < length ps"
  shows "collect_candidates calc ps mx idxss cands =
           Inr (cands @ take (mx - length cands)
                  (map (candidate_of calc ps) (filter (\<lambda>idxs. calc idxs ps > 0) idxss)))"
  using assms
proof (induction idxss arbitrary: cands)
  case Nil
  then show ?case by simp
next
  case (Cons idxs rest)
  have mk: "make_candidate calc ps idxs = Inr (candidate_of calc ps idxs)"
    using Cons.prems by (simp add: make_candidate_def list_all_iff)
  show ?case
  proof (cases "length cands < mx")
    case False
    then show ?thesis by simp
  next
    case True
    from Cons.prems have rest: "\<forall>idxs\<in>set rest. \<forall>i\<in>set idxs. i < length ps" by simp
    show ?thesis
    proof (cases "calc idxs ps > 0")
      case pos: True
      from True obtain k where k: "mx - length cands = Suc k" by (cases "mx - length cands") auto
      then have "mx - length (cands @ [candidate_of calc ps idxs]) = k" by simp
      with True pos mk k Cons.IH[OF rest, of "cands @ [candidate_of calc ps idxs]"]
      show ?thesis by (simp add: candidate_of_def)
    next
      case neg: False
      with True mk Cons.IH[OF rest, of cands] show ?thesis
        by (simp add: candidate_of_def)
    qed
  qed
qed

lemma set_pair_indices: "set (pair_indices n) = {[i, j] | i j. i < j \<and> j < n}"
  by (fastforce simp: pair_indices_def)

lemma pair_indices_in_range: "\<forall>idxs\<in>set (pair_indices (length ps)). \<forall>i\<in>set idxs. i < length ps"
  by (auto simp: set_pair_indices)

lemma triple_indices_in_range:
  "\<forall>idxs\<in>set (triple_indices (length ps - 2)). \<forall>i\<in>set idxs. i < length ps"
  by (auto simp: triple_indices_def)

lemma unat_triple_bound:
  assumes "2 \<le> length ps" "length ps < 2 ^ 64"
  shows "unat (triple_bound ps) = length ps - 2"
proof -
  have u: "unat (of_nat (length ps) :: u64) = length ps"
    using assms(2) by (simp add: of_nat_inverse)
  then have "(2 :: u64) \<le> of_nat (length ps)"
    using assms by (simp add: word_le_nat_alt)
  then show ?thesis
    using u by (simp add: triple_bound_def unat_sub)
qed

lemma example_parts_sizes:
  "map disk_usage example_parts = [242, 194, 194]"
  "map (\<lambda>p. m_row_count (metadata p)) example_parts = [3, 2, 2]"
  by (simp_all add: example_parts_def example_part_def part_a_def part_b_def write_defs
      disk_usage_def exists_on_disk_def metadata_bytes_def index_bytes_def granule_bytes_def
      string_bytes_def)

lemma example_parts_nth:
  "disk_usage (example_parts ! 0) = 242" "disk_usage (example_parts ! Suc 0) = 194"
  "disk_usage (example_parts ! 2) = 194"
  "m_row_count (metadata (example_parts ! 0)) = 3"
  "m_row_count (metadata (example_parts ! Suc 0)) = 2"
  "m_row_count (metadata (example_parts ! 2)) = 2"
  "length example_parts = 3"
  using example_parts_sizes by (simp_all add: example_parts_def)

lemma example_scores:
  "calculate_merge_score [0, Suc 0] example_parts = 194 / 242 * (1 / 2) * (436 / 10485760) * 100"
  "calculate_merge_score [0, 2] example_parts = 194 / 242 * (1 / 2) * (436 / 10485760) * 100"
  "calculate_merge_score [Suc 0, 2] example_parts = 1 * (1 / 2) * (388 / 10485760) * 100"
  "calculate_merge_score [0, Suc 0, 2] example_parts = 194 / 242 * (1 / 3) * (630 / 10485760) * 100"
  by (simp_all add: calculate_merge_score_def example_parts_nth Let_def)

lemma pair_indices_3: "pair_indices 3 = [[0, Suc 0], [0, 2], [Suc 0, 2]]"
  by (simp add: pair_indices_def upt_rec numeral_3_eq_3 numeral_2_eq_2)

lemma triple_indices_1: "triple_indices (Suc 0) = [[0, Suc 0, 2]]"
  by (simp add: triple_indices_def)

lemma select_merge_candidates_eq:
  fixes calc :: "nat list \<Rightarrow> Part list \<Rightarrow> 's::{linorder,zero}"
  assumes "2 \<le> length ps" "length ps < 2 ^ 64"
  shows "select_merge_candidates calc ps mx =
     Inr (std_sort (\<lambda>a b. score a > score b)
            (take mx (map (candidate_of calc ps)
               (filter (\<lambda>idxs. calc idxs ps > 0)
                  (pair_indices (length ps) @ triple_indices (length ps - 2))))))"
proof -
  let ?pos = "\<lambda>idxs. calc idxs ps > 0"
  let ?P = "map (candidate_of calc ps) (filter ?pos (pair_indices (length ps)))"
  let ?T = "map (candidate_of calc ps) (filter ?pos (triple_indices (length ps - 2)))"
  have p: "collect_candidates calc ps mx (pair_indices (length ps)) [] = Inr (take mx ?P)"
    using collect_candidates_take[where cands="[]" and mx=mx and calc=calc and ps=ps,
        OF pair_indices_in_range] by simp
  have t: "collect_candidates calc ps mx (triple_indices (length ps - 2)) (take mx ?P)
            = Inr (take mx ?P @ take (mx - length (take mx ?P)) ?T)"
    by (rule collect_candidates_take[where ps=ps, OF triple_indices_in_range])
  have "take mx ?P @ take (mx - length (take mx ?P)) ?T = take mx (?P @ ?T)"
    by (cases "mx \<le> length ?P") (simp_all add: min_def)
  with p t assms show ?thesis
    by (simp add: select_merge_candidates_def unat_triple_bound)
qed

lemma example_select_1:
  "select_merge_candidates calculate_merge_score example_parts (Suc 0)
     = Inr [candidate_of calculate_merge_score example_parts [0, Suc 0]]"
  by (simp add: select_merge_candidates_eq example_parts_nth pair_indices_3
      triple_indices_1 example_scores std_sort_def)

lemma example_select_3:
  "select_merge_candidates calculate_merge_score example_parts 3
     = Inr [candidate_of calculate_merge_score example_parts [Suc 0, 2],
            candidate_of calculate_merge_score example_parts [0, Suc 0],
            candidate_of calculate_merge_score example_parts [0, 2]]"
  by (simp add: select_merge_candidates_eq example_parts_nth pair_indices_3
      triple_indices_1 example_scores std_sort_def candidate_of_def)

text \<open>
  C4 as stated fails. With the three parts of \<open>example_parts\<close> (242, 194 and 194 bytes) and
  \<open>max_candidates = 1\<close> the result is the pair \<open>{0, 1}\<close>, the first candidate enumerated,
  although the pair \<open>{1, 2}\<close> scores higher. With \<open>max_candidates = 3\<close> the result holds the
  pair \<open>{0, 2}\<close>, which is not adjacent, and not the triple \<open>{0, 1, 2}\<close>, whose score is
  positive but which is never visited.
\<close>

theorem select_merge_candidates_not_adjacent_best:
  "(\<exists>c. select_merge_candidates calculate_merge_score example_parts 1 = Inr [c]
        \<and> part_indices c = [0, 1]
        \<and> score c < calculate_merge_score [1, 2] example_parts)
   \<and> (\<exists>cs. select_merge_candidates calculate_merge_score example_parts 3 = Inr cs
        \<and> [0, 2] \<in> set (map part_indices cs)
        \<and> [0, 1, 2] \<notin> set (map part_indices cs))
   \<and> 0 < calculate_merge_score [0, 1, 2] example_parts"
  by (simp add: example_select_1 example_select_3 candidate_of_def example_scores)

text \<open>
  C4, amended. For fewer than two parts the result is empty. Otherwise
  \<open>select_merge_candidates\<close> visits every pair \<open>(i, j)\<close> with \<open>i < j\<close>, in lexicographic order,
  and then the adjacent triples \<open>(i, i + 1, i + 2)\<close>; it keeps the candidates whose score is
  positive and stops as soon as \<open>max_candidates\<close> are kept; it returns the kept candidates,
  that is the first up to \<open>max_candidates\<close> positively scored candidates in the order of the
  visit, sorted by descending score.
\<close>

theorem select_merge_candidates_first_positive:
  fixes calc :: "nat list \<Rightarrow> Part list \<Rightarrow> 's::{linorder,zero}"
  assumes "length ps < 2 ^ 64"
  shows "(length ps < 2 \<longrightarrow> select_merge_candidates calc ps max_candidates = Inr [])
    \<and> (2 \<le> length ps \<longrightarrow>
         (\<exists>cs. select_merge_candidates calc ps max_candidates = Inr cs
            \<and> mset cs = mset (take max_candidates (map (candidate_of calc ps)
                  (filter (\<lambda>idxs. calc idxs ps > 0)
                     (pair_indices (length ps) @ triple_indices (length ps - 2)))))
            \<and> sorted_wrt (\<lambda>a b. score a \<ge> score b) cs))
    \<and> pair_indices (length ps)
         = concat (map (\<lambda>i. map (\<lambda>j. [i, j]) [i + 1..<length ps]) [0..<length ps])
    \<and> triple_indices (length ps - 2) = map (\<lambda>i. [i, i + 1, i + 2]) [0..<length ps - 2]"
proof -
  have "sorted_wrt (\<lambda>a b. \<not> score b > score a) (std_sort (\<lambda>a b. score a > score b) xs)"
    for xs :: "'s MergeCandidate list"
    by (rule sorted_std_sort_by) auto
  then have "sorted_wrt (\<lambda>a b. score a \<ge> score b) (std_sort (\<lambda>a b. score a > score b) xs)"
    for xs :: "'s MergeCandidate list"
    by (simp add: not_less)
  then show ?thesis
    using assms select_merge_candidates_eq[of ps calc max_candidates]
    by (auto simp: mset_std_sort select_merge_candidates_def pair_indices_def triple_indices_def)
qed

theorem select_merge_candidates_first_positive_witness:
  "length example_parts < 2 ^ 64 \<and> 2 \<le> length example_parts
   \<and> (\<exists>cs. select_merge_candidates calculate_merge_score example_parts 1 = Inr cs
         \<and> map part_indices cs = [[0, 1]]
         \<and> sorted_wrt (\<lambda>a b. score a \<ge> score b) cs)"
  using select_merge_candidates_first_positive[of example_parts calculate_merge_score 1]
  by (simp add: example_select_1 candidate_of_def example_parts_nth)

lemma pair_indices_2: "pair_indices 2 = [[0, Suc 0]]"
  by (simp add: pair_indices_def upt_rec numeral_2_eq_2)

lemma triple_bound_2: "length ps = 2 \<Longrightarrow> triple_bound ps = 0"
  by (simp add: triple_bound_def)

text \<open>
  C5 as stated fails: no parts list with fewer than three parts makes
  \<open>select_merge_candidates\<close> read a part index out of range, and wherever the bound
  \<^verbatim>\<open>parts.size() - 2\<close> is computed (two parts or more) it is the difference of the
  integers, without wrap-around.
\<close>

theorem select_merge_candidates_no_underflow:
  "\<not> (\<exists>ps max_candidates. length ps < 3
        \<and> (select_merge_candidates calculate_merge_score ps max_candidates = Inl OutOfRange
           \<or> (2 \<le> length ps \<and> unat (triple_bound ps) \<noteq> length ps - 2)))"
proof
  assume "\<exists>ps max_candidates. length ps < 3
        \<and> (select_merge_candidates calculate_merge_score ps max_candidates = Inl OutOfRange
           \<or> (2 \<le> length ps \<and> unat (triple_bound ps) \<noteq> length ps - 2))"
  then obtain ps mx where l: "length ps < 3"
    and d: "select_merge_candidates calculate_merge_score ps mx = Inl OutOfRange
           \<or> (2 \<le> length ps \<and> unat (triple_bound ps) \<noteq> length ps - 2)" by blast
  show False
  proof (cases "length ps < 2")
    case True
    with d show False by (simp add: select_merge_candidates_def)
  next
    case False
    with l have "2 \<le> length ps" "length ps < 2 ^ 64" by simp_all
    with d show False
      by (simp add: select_merge_candidates_eq unat_triple_bound)
  qed
qed

text \<open>
  C5, amended. For every parts list with fewer than three parts
  \<open>select_merge_candidates\<close> returns without reading a part index out of range: fewer than
  two parts give the empty result before the triple loop, and for two parts the bound
  \<^verbatim>\<open>parts.size() - 2\<close> is 0, the triple loop is not entered and every candidate returned
  is a pair.
\<close>

theorem select_merge_candidates_small_lists_safe:
  fixes calc :: "nat list \<Rightarrow> Part list \<Rightarrow> 's::{linorder,zero}"
  assumes "length ps < 3"
  shows "(length ps < 2 \<longrightarrow> select_merge_candidates calc ps max_candidates = Inr [])
    \<and> (length ps = 2 \<longrightarrow>
          triple_bound ps = 0 \<and> triple_indices (unat (triple_bound ps)) = [])
    \<and> (\<exists>cs. select_merge_candidates calc ps max_candidates = Inr cs
          \<and> list_all (\<lambda>c. length (part_indices c) = 2) cs)"
proof (cases "length ps < 2")
  case True
  then show ?thesis by (simp add: select_merge_candidates_def)
next
  case False
  with assms have l: "length ps = 2" by simp
  have "length (part_indices c) = 2"
    if "c \<in> set (std_sort lt (take n (map (candidate_of calc ps) (filter P [[0, Suc 0]]))))"
    for c lt n P
  proof -
    from that have "c \<in> set (take n (map (candidate_of calc ps) (filter P [[0, Suc 0]])))"
      by (simp only: set_std_sort)
    then have "c \<in> set (map (candidate_of calc ps) (filter P [[0, Suc 0]]))"
      by (rule in_set_takeD)
    then show ?thesis by (auto simp: candidate_of_def split: if_splits)
  qed
  then have "list_all (\<lambda>c. length (part_indices c) = 2)
      (std_sort lt (take n (map (candidate_of calc ps) (filter P [[0, Suc 0]]))))" for lt n P
    unfolding list_all_iff by blast
  note la = this
  have eq: "select_merge_candidates calc ps max_candidates =
      Inr (std_sort (\<lambda>a b. score a > score b)
             (take max_candidates (map (candidate_of calc ps)
                (filter (\<lambda>idxs. calc idxs ps > 0) [[0, Suc 0]]))))"
    using l
    by (simp add: select_merge_candidates_eq pair_indices_2 triple_indices_def
        del: filter.simps)
  have c3: "\<exists>cs. select_merge_candidates calc ps max_candidates = Inr cs
          \<and> list_all (\<lambda>c. length (part_indices c) = 2) cs"
    unfolding eq using la by blast
  from l have tb: "triple_bound ps = 0" by (rule triple_bound_2)
  then have c2: "triple_bound ps = 0 \<and> triple_indices (unat (triple_bound ps)) = []"
    by (simp add: triple_indices_def)
  from False c2 c3 show ?thesis by blast
qed

theorem select_merge_candidates_small_lists_safe_witness:
  "length [part_a, part_b] < 3 \<and> triple_bound [part_a, part_b] = 0
   \<and> (\<exists>cs. select_merge_candidates calculate_merge_score [part_a, part_b] 3 = Inr cs
         \<and> list_all (\<lambda>c. length (part_indices c) = 2) cs)"
  using select_merge_candidates_small_lists_safe[of "[part_a, part_b]" calculate_merge_score 3]
  by simp

subsection \<open>C7: recovery\<close>

lemma of_char_digit: "d < 10 \<Longrightarrow> (of_char (char_of (48 + d :: nat)) :: nat) = 48 + d"
  by simp

lemma isdigit_digit: "d < 10 \<Longrightarrow> isdigit (char_of (48 + d :: nat))"
  by (simp add: isdigit_def)

lemma to_string_nonempty: "to_string n \<noteq> []"
  by (subst to_string.simps) simp

lemma to_string_digits: "c \<in> set (to_string n) \<Longrightarrow> isdigit c"
proof (induction n rule: to_string.induct)
  case (1 n)
  show ?case
  proof (cases "n < 10")
    case True
    with "1.prems" show ?thesis
      by (simp add: to_string.simps[of n] isdigit_digit)
  next
    case False
    have "n mod 10 < 10" by simp
    with False "1.prems" "1.IH" show ?thesis
      by (auto simp: to_string.simps[of n] isdigit_digit)
  qed
qed

lemma digits_value_snoc:
  "digits_value (ds @ [c]) = 10 * digits_value ds + (of_char c - 48)"
  by (simp add: digits_value_def)

lemma digits_value_to_string: "digits_value (to_string n) = n"
proof (induction n rule: to_string.induct)
  case (1 n)
  show ?case
  proof (cases "n < 10")
    case True
    then show ?thesis
      by (simp add: to_string.simps[of n] digits_value_def)
  next
    case False
    have "n mod 10 < 10" by simp
    then have "(of_char (char_of (48 + n mod 10)) :: nat) - 48 = n mod 10"
      by (simp only: of_char_digit)
    with False "1.IH" show ?thesis
      by (simp add: to_string.simps[of n] digits_value_snoc)
  qed
qed

lemma isdigit_not_space: "isdigit c \<Longrightarrow> \<not> isspace c \<and> c \<noteq> CHR ''-'' \<and> c \<noteq> CHR ''+''"
  by (auto simp: isdigit_def isspace_def)

lemma stoull_digits:
  assumes "t \<noteq> []" "list_all isdigit t" "digits_value t < 2 ^ 64"
  shows "stoull t = Some (of_nat (digits_value t))"
proof -
  obtain c cs where s: "t = c # cs" using assms(1) by (cases t) auto
  with assms(2) have c: "isdigit c" by simp
  from isdigit_not_space[OF c] s have d: "dropWhile isspace t = t" by simp
  from assms(2) have tk: "takeWhile isdigit t = t" by (simp add: list_all_iff)
  from isdigit_not_space[OF c] d tk assms(3) show ?thesis
    unfolding s by (simp add: stoull_def Let_def)
qed

lemma stoull_no_start:
  assumes "t = [] \<or> \<not> id_text_start (hd t)"
  shows "stoull t = None"
proof (cases t)
  case Nil
  then show ?thesis by (simp add: stoull_def)
next
  case (Cons c cs)
  with assms have "\<not> isspace c" "c \<noteq> CHR ''-''" "c \<noteq> CHR ''+''" "\<not> isdigit c"
    by (simp_all add: id_text_start_def)
  with Cons show ?thesis by (simp add: stoull_def Let_def)
qed

text \<open>The directory of every part id below \<open>2 ^ 64 - 1\<close> is named as the recovery expects.\<close>

lemma part_directory_named:
  assumes "unat i < 2 ^ 64 - 1"
  shows "part_named \<lparr>filename = part_directory i, is_directory = True, files = fs\<rparr>"
    and "digits_value (drop 5 (part_directory i)) = unat i"
  using assms to_string_nonempty[of "unat i"] to_string_digits[of _ "unat i"]
  by (simp_all add: part_named_def decimal_id_def part_directory_def digits_value_to_string
      list_all_iff)

lemma scan_part_ids_named_ids:
  "list_all well_named es \<Longrightarrow> scan_part_ids es = map of_nat (named_ids es)"
proof (induction es)
  case Nil
  then show ?case by (simp add: named_ids_def)
next
  case (Cons e es)
  then have IH: "scan_part_ids es = map of_nat (named_ids es)" and w: "well_named e" by simp_all
  show ?case
  proof (cases "part_named e")
    case True
    then have "stoull (drop 5 (filename e)) = Some (of_nat (digits_value (drop 5 (filename e))))"
      by (intro stoull_digits) (simp_all add: part_named_def decimal_id_def)
    with True IH show ?thesis by (simp add: named_ids_def part_named_def)
  next
    case False
    show ?thesis
    proof (cases "is_directory e \<and> take 5 (filename e) = ''part_''")
      case True
      with w False have "drop 5 (filename e) = [] \<or> \<not> id_text_start (hd (drop 5 (filename e)))"
        by (auto simp: well_named_def)
      then have "stoull (drop 5 (filename e)) = None" by (rule stoull_no_start)
      with True False IH show ?thesis by (simp add: named_ids_def)
    next
      case False
      with \<open>\<not> part_named e\<close> IH show ?thesis by (auto simp: named_ids_def)
    qed
  qed
qed

lemma named_ids_bound: "n \<in> set (named_ids es) \<Longrightarrow> n < 2 ^ 64 - 1"
  by (auto simp: named_ids_def part_named_def decimal_id_def)

lemma named_ids_empty: "named_ids es = [] \<longleftrightarrow> \<not> list_ex part_named es"
  by (simp add: named_ids_def list_ex_iff filter_empty_conv)

lemma unat_of_nat_u64: "n < 2 ^ 64 \<Longrightarrow> unat (of_nat n :: u64) = n"
  by (simp add: of_nat_inverse)

lemma Max_of_nat_u64:
  assumes "ns \<noteq> []" "\<forall>n\<in>set ns. n < 2 ^ 64"
  shows "Max (set (map of_nat ns :: u64 list)) = of_nat (Max (set ns))"
proof (rule Max_eqI)
  show "finite (set (map of_nat ns :: u64 list))" by simp
  have M: "Max (set ns) \<in> set ns" using assms(1) by (intro Max_in) simp_all
  then show "of_nat (Max (set ns)) \<in> set (map of_nat ns :: u64 list)" by simp
  fix y :: u64 assume "y \<in> set (map of_nat ns)"
  then obtain n where n: "n \<in> set ns" "y = of_nat n" by auto
  then have "n \<le> Max (set ns)" by simp
  moreover have "n < 2 ^ 64" "Max (set ns) < 2 ^ 64" using assms(2) n M by auto
  ultimately show "y \<le> of_nat (Max (set ns))"
    using n by (simp add: word_le_nat_alt unat_of_nat_u64)
qed

lemma sorted_std_sort_word: "sorted (std_sort (<) (xs :: u64 list))"
proof -
  have "sorted_wrt (\<lambda>a b. \<not> b < a) (std_sort (<) xs)"
    by (rule sorted_std_sort_by) auto
  then show ?thesis by (simp add: not_less)
qed

lemma last_sorted_Max:
  fixes xs :: "'a::linorder list"
  shows "sorted xs \<Longrightarrow> xs \<noteq> [] \<Longrightarrow> last xs = Max (set xs)"
proof (induction xs)
  case Nil
  then show ?case by simp
next
  case (Cons x xs)
  show ?case
  proof (cases "xs = []")
    case True
    then show ?thesis by simp
  next
    case False
    with Cons have "last xs = Max (set xs)" by simp
    moreover from Cons.prems False have "x \<le> Max (set xs)"
      by (metis List.finite_set Max_ge_iff last_in_set set_empty sorted_simps(2))
    ultimately show ?thesis using False by (simp add: max_def)
  qed
qed

lemma recovered_part_ids:
  "map (\<lambda>p. part_id (metadata p))
     (filter exists_on_disk (map (\<lambda>i. Part_new i (d i)) ids))
   = filter (\<lambda>i. exists_on_disk (Part_new i (d i))) ids"
  by (induction ids) (simp_all add: Part_new_def PartMetadata_new_def)

lemma recovered_ids_eq:
  "map (\<lambda>p. part_id (metadata p)) (parts (MergeTree_new (Some es)))
     = filter (\<lambda>i. exists_on_disk (Part_new i (find_directory es (part_directory i))))
         (std_sort (<) (scan_part_ids es))"
  by (simp add: MergeTree_new_def load_existing_parts_def create_base_directory_def Let_def
      recovered_part_ids)

lemma char_of_digits:
  "char_of (48::nat) = CHR ''0''" "char_of (49::nat) = CHR ''1''" "char_of (50::nat) = CHR ''2''"
  "char_of (51::nat) = CHR ''3''" "char_of (52::nat) = CHR ''4''" "char_of (53::nat) = CHR ''5''"
  "char_of (54::nat) = CHR ''6''" "char_of (55::nat) = CHR ''7''" "char_of (56::nat) = CHR ''8''"
  "char_of (57::nat) = CHR ''9''"
  by (simp_all add: char_of_eq_iff)

lemma example_listing_ids: "scan_part_ids example_listing = [3, 1, 5]"
  by (simp add: example_listing_def stoull_def isspace_def isdigit_def digits_value_def Let_def)

lemma example_directories:
  "part_directory 1 = ''part_1''" "part_directory 3 = ''part_3''"
  "part_directory 5 = ''part_5''"
  by (simp_all add: part_directory_def to_string.simps char_of_digits)

lemma example_files:
  "metadata_bin (files_of part_a) \<noteq> None" "metadata_bin (files_of part_c) \<noteq> None"
  "metadata_bin no_files = None"
  by (simp_all add: files_of_def no_files_def part_a_def part_c_def write_defs)

lemma example_found:
  "exists_on_disk (Part_new 1 (find_directory example_listing ''part_1''))"
  "exists_on_disk (Part_new 3 (find_directory example_listing ''part_3''))"
  "\<not> exists_on_disk (Part_new 5 (find_directory example_listing ''part_5''))"
  by (simp_all add: find_directory_def example_listing_def exists_on_disk_def Part_new_def
      example_files)

lemma example_listing_parts:
  "map (\<lambda>p. part_id (metadata p)) (parts (MergeTree_new (Some example_listing))) = [1, 3]"
proof -
  have "std_sort (<) [3, 1, 5 :: u64] = [1, 3, 5]" by (simp add: std_sort_def)
  then show ?thesis
    by (simp add: recovered_ids_eq example_listing_ids example_directories example_found)
qed

lemma example_listing_next:
  "next_part_id (MergeTree_new (Some example_listing)) = 6"
proof -
  have "std_sort (<) [3, 1, 5 :: u64] = [1, 3, 5]" by (simp add: std_sort_def)
  then show ?thesis
    by (simp add: MergeTree_new_def load_existing_parts_def create_base_directory_def Let_def
        example_listing_ids)
qed

text \<open>
  What \<^verbatim>\<open>load_existing_parts\<close> leaves in \<open>next_part_id\<close>, in terms of the ids \<^verbatim>\<open>std::stoull\<close>
  read: the greatest of them plus 1 in \<^verbatim>\<open>size_t\<close> arithmetic, or 1.
\<close>

lemma next_part_id_scan:
  "next_part_id (MergeTree_new (Some es)) =
     (if scan_part_ids es = [] then 1 else Max (set (scan_part_ids es)) + 1)"
proof -
  let ?ids = "std_sort (<) (scan_part_ids es)"
  have s: "sorted ?ids" by (rule sorted_std_sort_word)
  have set_ids: "set ?ids = set (scan_part_ids es)" by (rule set_std_sort)
  have ne: "?ids \<noteq> [] \<longleftrightarrow> scan_part_ids es \<noteq> []"
    using set_ids by (metis set_empty)
  have "last ?ids = Max (set (scan_part_ids es))" if "scan_part_ids es \<noteq> []"
    using last_sorted_Max[OF s] that ne set_ids by simp
  then show ?thesis
    using ne by (simp add: MergeTree_new_def load_existing_parts_def create_base_directory_def Let_def)
qed

lemma next_part_id_named:
  assumes "list_all well_named es"
  shows "named_ids es \<noteq> [] \<Longrightarrow>
           unat (next_part_id (MergeTree_new (Some es))) = Max (set (named_ids es)) + 1"
    and "named_ids es = [] \<Longrightarrow> next_part_id (MergeTree_new (Some es)) = 1"
proof -
  note sc = scan_part_ids_named_ids[OF assms]
  show "next_part_id (MergeTree_new (Some es)) = 1" if "named_ids es = []"
    using that by (simp add: next_part_id_scan sc)
  show "unat (next_part_id (MergeTree_new (Some es))) = Max (set (named_ids es)) + 1"
    if ne: "named_ids es \<noteq> []"
  proof -
    have b: "\<forall>n\<in>set (named_ids es). n < 2 ^ 64" using named_ids_bound by fastforce
    have M: "Max (set (named_ids es)) \<in> set (named_ids es)" using ne by (intro Max_in) simp_all
    then have Mb: "Max (set (named_ids es)) + 1 < 2 ^ 64" using named_ids_bound[of _ es] by fastforce
    have mx: "Max (set (map of_nat (named_ids es) :: u64 list)) = of_nat (Max (set (named_ids es)))"
      using ne b by (rule Max_of_nat_u64)
    have "next_part_id (MergeTree_new (Some es)) = of_nat (Max (set (named_ids es))) + 1"
      using ne mx by (simp add: next_part_id_scan sc)
    also have "\<dots> = of_nat (Max (set (named_ids es)) + 1)" by simp
    finally show ?thesis using Mb by (simp only: unat_of_nat_u64)
  qed
qed

lemma recovered_named:
  assumes "list_all well_named es"
  shows "set (map (\<lambda>p. unat (part_id (metadata p))) (parts (MergeTree_new (Some es))))
           \<subseteq> set (named_ids es)"
proof -
  have "set (map (\<lambda>p. part_id (metadata p)) (parts (MergeTree_new (Some es))))
          \<subseteq> set (scan_part_ids es)"
    unfolding recovered_ids_eq using set_std_sort[of "(<)" "scan_part_ids es"] by auto
  then have "set (map (\<lambda>p. part_id (metadata p)) (parts (MergeTree_new (Some es))))
          \<subseteq> of_nat ` set (named_ids es)"
    by (simp add: scan_part_ids_named_ids[OF assms])
  moreover have "unat (of_nat n :: u64) = n" if "n \<in> set (named_ids es)" for n
    using named_ids_bound[OF that] by (simp add: unat_of_nat_u64)
  ultimately show ?thesis by fastforce
qed

lemma example_listing_named:
  "list_all well_named example_listing" "named_ids example_listing = [3, 1, 5]"
  by (simp_all add: example_listing_def well_named_def part_named_def decimal_id_def named_ids_def
      id_text_start_def isspace_def isdigit_def digits_value_def)

text \<open>
  C7 as stated fails. \<^verbatim>\<open>std::stoull\<close> reads the digits a text starts with and ignores what
  follows them: a \<^verbatim>\<open>base_path\<close> holding the one directory \<open>part_7abc\<close>, which is not named
  \<open>part_\<close> and a decimal id, leaves \<open>next_part_id\<close> at 8 and not at 1. And the id after
  \<open>2 ^ 64 - 1\<close> is 0 in \<^verbatim>\<open>size_t\<close> arithmetic: the one directory
  \<open>part_18446744073709551615\<close> leaves \<open>next_part_id\<close> at 0.
\<close>

theorem recovery_stray_directory_names:
  "\<not> list_all isdigit ''7abc''
   \<and> \<not> list_ex part_named [\<lparr>filename = ''part_7abc'', is_directory = True, files = no_files\<rparr>]
   \<and> next_part_id (MergeTree_new
         (Some [\<lparr>filename = ''part_7abc'', is_directory = True, files = no_files\<rparr>])) = 8
   \<and> list_all isdigit ''18446744073709551615''
   \<and> digits_value ''18446744073709551615'' = 2 ^ 64 - 1
   \<and> next_part_id (MergeTree_new
         (Some [\<lparr>filename = ''part_18446744073709551615'', is_directory = True,
                  files = no_files\<rparr>])) = 0"
  by (simp add: part_named_def decimal_id_def MergeTree_new_def load_existing_parts_def
      create_base_directory_def Let_def stoull_def isspace_def isdigit_def digits_value_def
      std_sort_def)

text \<open>
  C7, amended. Let \<open>es\<close> list a \<^verbatim>\<open>base_path\<close> in which every directory whose name goes on
  after \<open>part_\<close> with white space, a sign or a digit is named \<open>part_\<close> and the decimal digits
  of an id below \<open>2 ^ 64 - 1\<close>, and nothing more. After construction \<open>next_part_id\<close> is the
  greatest id of the directories so named plus 1 when there is one, and 1 when there is
  none; and every recovered part has the id of such a directory. For every listing the
  recovered parts are in ascending order of \<open>part_id\<close>, and \<open>next_part_id\<close> is 1 when
  \<^verbatim>\<open>base_path\<close> did not exist.
\<close>

theorem recovery_next_part_id:
  "(list_all well_named es \<longrightarrow>
      (list_ex part_named es \<longrightarrow>
         unat (next_part_id (MergeTree_new (Some es))) = Max (set (named_ids es)) + 1)
      \<and> (\<not> list_ex part_named es \<longrightarrow> next_part_id (MergeTree_new (Some es)) = 1)
      \<and> set (map (\<lambda>p. unat (part_id (metadata p))) (parts (MergeTree_new (Some es))))
            \<subseteq> set (named_ids es))
   \<and> next_part_id (MergeTree_new None) = 1
   \<and> sorted (map (\<lambda>p. part_id (metadata p)) (parts (MergeTree_new (Some es))))"
proof -
  have c1: "unat (next_part_id (MergeTree_new (Some es))) = Max (set (named_ids es)) + 1"
    if "list_all well_named es" "list_ex part_named es"
    using next_part_id_named(1)[OF that(1)] that(2) by (simp add: named_ids_empty)
  have c2: "next_part_id (MergeTree_new (Some es)) = 1"
    if "list_all well_named es" "\<not> list_ex part_named es"
    using next_part_id_named(2)[OF that(1)] that(2) by (simp add: named_ids_empty)
  have c3: "next_part_id (MergeTree_new None) = 1"
    by (simp add: MergeTree_new_def load_existing_parts_def create_base_directory_def Let_def
        std_sort_def)
  have c4: "sorted (map (\<lambda>p. part_id (metadata p)) (parts (MergeTree_new (Some es))))"
    unfolding recovered_ids_eq using sorted_std_sort_word by (rule sorted_wrt_filter)
  from c1 c2 c3 c4 recovered_named[of es] show ?thesis by blast
qed

theorem recovery_next_part_id_witness:
  "list_all well_named example_listing \<and> list_ex part_named example_listing
   \<and> named_ids example_listing = [3, 1, 5]
   \<and> unat (next_part_id (MergeTree_new (Some example_listing))) = 6
   \<and> next_part_id (MergeTree_new (Some example_listing)) = 6
   \<and> map (\<lambda>p. part_id (metadata p)) (parts (MergeTree_new (Some example_listing))) = [1, 3]
   \<and> sorted (map (\<lambda>p. part_id (metadata p)) (parts (MergeTree_new (Some example_listing))))"
proof -
  have ex: "list_ex part_named example_listing"
    using example_listing_named(2) named_ids_empty[of example_listing] by simp
  from recovery_next_part_id[of example_listing] example_listing_named ex
  have "unat (next_part_id (MergeTree_new (Some example_listing))) = 6"
    and "sorted (map (\<lambda>p. part_id (metadata p)) (parts (MergeTree_new (Some example_listing))))"
    by simp_all
  with example_listing_named ex example_listing_parts example_listing_next show ?thesis
    by simp
qed

subsection \<open>C8: the sparse index\<close>

lemma find_granules_filter:
  "find_granules es s e = map granule_index (filter (\<lambda>x. overlaps_range x s e) es)"
  by (induction es) simp_all

text \<open>
  C8. An index entry overlaps \<open>[start, end]\<close> exactly when
  \<open>\<not> (max_key < start \<or> min_key > end)\<close>, that is when \<open>start \<le> max_key\<close> and
  \<open>min_key \<le> end\<close> (both ends inclusive). \<open>find_granules\<close> returns the \<open>granule_index\<close> of
  the entries that satisfy this predicate, in the order of the entries, and of no other
  entry; when the entries were added in ascending \<open>granule_index\<close> order the result is
  ascending.
\<close>

theorem find_granules_overlapping:
  "(overlaps_range x start_key end_key
      \<longleftrightarrow> \<not> (max_key x < start_key \<or> min_key x > end_key))
   \<and> (overlaps_range x start_key end_key \<longleftrightarrow> start_key \<le> max_key x \<and> min_key x \<le> end_key)
   \<and> find_granules es start_key end_key
       = map granule_index (filter (\<lambda>y. overlaps_range y start_key end_key) es)
   \<and> (sorted (map granule_index es) \<longrightarrow> sorted (find_granules es start_key end_key))"
proof -
  have "sorted (map granule_index (filter P es))" if "sorted (map granule_index es)" for P
    using that by (induction es) auto
  then show ?thesis
    by (auto simp: overlaps_range_def find_granules_filter)
qed

theorem find_granules_overlapping_witness:
  "sorted (map granule_index
      [\<lparr>min_key = ''a'', max_key = ''c'', granule_index = 0, row_count = 2\<rparr>,
       \<lparr>min_key = ''d'', max_key = ''f'', granule_index = 1, row_count = 2\<rparr>,
       \<lparr>min_key = ''g'', max_key = ''k'', granule_index = 2, row_count = 2\<rparr>])
   \<and> find_granules
      [\<lparr>min_key = ''a'', max_key = ''c'', granule_index = 0, row_count = 2\<rparr>,
       \<lparr>min_key = ''d'', max_key = ''f'', granule_index = 1, row_count = 2\<rparr>,
       \<lparr>min_key = ''g'', max_key = ''k'', granule_index = 2, row_count = 2\<rparr>] ''f'' ''g''
     = [1, 2]
   \<and> sorted (find_granules
      [\<lparr>min_key = ''a'', max_key = ''c'', granule_index = 0, row_count = 2\<rparr>,
       \<lparr>min_key = ''d'', max_key = ''f'', granule_index = 1, row_count = 2\<rparr>,
       \<lparr>min_key = ''g'', max_key = ''k'', granule_index = 2, row_count = 2\<rparr>] ''f'' ''g'')"
  using find_granules_overlapping
    [of "\<lparr>min_key = ''a'', max_key = ''c'', granule_index = 0, row_count = 2\<rparr>" "''f''" "''g''"
      "[\<lparr>min_key = ''a'', max_key = ''c'', granule_index = 0, row_count = 2\<rparr>,
       \<lparr>min_key = ''d'', max_key = ''f'', granule_index = 1, row_count = 2\<rparr>,
       \<lparr>min_key = ''g'', max_key = ''k'', granule_index = 2, row_count = 2\<rparr>]"]
  by (simp add: overlaps_range_def)

end
